theory Spec2Isabelle
  imports Main "HOL-Library.Word"
begin

section \<open>The topology state machine's data model (service/topology\_state\_machine.hh)\<close>

text \<open>
  Types declared outside the embedded sources are given a representation one can
  compute with: a \<open>raft::server_id\<close> is a natural number, a \<open>utils::UUID\<close> a 128-bit
  word, a \<open>dht::token\<close> a 64-bit ring position, an \<open>sstring\<close> a string.
\<close>

type_synonym server_id = nat
type_synonym UUID = "128 word"
type_synonym token = "64 word"
type_synonym sstring = string

subsection \<open>Enumerations\<close>

text \<open>
  Every \<open>enum class\<close> of the header has \<open>uint16_t\<close> as its underlying type and no
  explicit enumerator values, so the enumerators are numbered 0, 1, 2, ... in the order
  of their declaration. Each enumeration is a datatype with the enumerators as
  constructors, together with the function to the underlying value.
\<close>

text \<open>
  The header documents \<open>none\<close> as the state of a node that joined group0 but has not
  bootstrapped yet (it has no tokens and no data to serve), and \<open>rollback_to_normal\<close>
  as the state of a node that rolls back a failed decommission or remove operation.
\<close>

datatype node_state =
    none
  | bootstrapping
  | decommissioning
  | removing
  | replacing
  | rebuilding
  | normal
  | left
  | rollback_to_normal

fun node_state_value :: "node_state \<Rightarrow> 16 word" where
  "node_state_value none = 0"
| "node_state_value bootstrapping = 1"
| "node_state_value decommissioning = 2"
| "node_state_value removing = 3"
| "node_state_value replacing = 4"
| "node_state_value rebuilding = 5"
| "node_state_value normal = 6"
| "node_state_value left = 7"
| "node_state_value rollback_to_normal = 8"

datatype topology_request =
    replace
  | join
  | remove
  | leave
  | rebuild

fun topology_request_value :: "topology_request \<Rightarrow> 16 word" where
  "topology_request_value replace = 0"
| "topology_request_value join = 1"
| "topology_request_value remove = 2"
| "topology_request_value leave = 3"
| "topology_request_value rebuild = 4"

datatype cleanup_status =
    clean
  | needed
  | running

datatype global_topology_request =
    new_cdc_generation
  | cleanup

datatype transition_state =
    join_group0
  | commit_cdc_generation
  | tablet_draining
  | write_both_read_old
  | write_both_read_new
  | tablet_migration
  | left_token_ring

fun transition_state_value :: "transition_state \<Rightarrow> 16 word" where
  "transition_state_value join_group0 = 0"
| "transition_state_value commit_cdc_generation = 1"
| "transition_state_value tablet_draining = 2"
| "transition_state_value write_both_read_old = 3"
| "transition_state_value write_both_read_new = 4"
| "transition_state_value tablet_migration = 5"
| "transition_state_value left_token_ring = 6"

datatype command =
    barrier
  | barrier_and_drain
  | stream_ranges
  | wait_for_ip

datatype command_status =
    fail
  | success

fun command_status_value :: "command_status \<Rightarrow> 16 word" where
  "command_status_value fail = 0"
| "command_status_value success = 1"

subsection \<open>Request parameters\<close>

record join_param =
  num_tokens :: "32 word"

record rebuild_param =
  source_dc :: sstring

record removenode_param =
  ignored_ids :: "server_id set"

record replace_param =
  replaced_id :: server_id
  ignored_ids :: "server_id set"

text \<open>
  \<open>request_param\<close> is a \<open>std::variant\<close> over the four parameter structs, in this
  order of alternatives; \<open>request_param_index\<close> is the variant's \<open>index()\<close>.
\<close>

datatype request_param =
    Join_param join_param
  | Rebuild_param rebuild_param
  | Removenode_param removenode_param
  | Replace_param replace_param

fun request_param_index :: "request_param \<Rightarrow> nat" where
  "request_param_index (Join_param _) = 0"
| "request_param_index (Rebuild_param _) = 1"
| "request_param_index (Removenode_param _) = 2"
| "request_param_index (Replace_param _) = 3"

subsection \<open>Replicas and the topology\<close>

text \<open>
  The member \<open>cleanup\<close> of \<open>replica_state\<close> is \<open>cleanup_st\<close> here: \<open>cleanup\<close> is
  also an enumerator of \<open>global_topology_request\<close>.
\<close>

record ring_slice =
  tokens :: "token set"

record replica_state =
  state :: node_state
  datacenter :: sstring
  rack :: sstring
  release_version :: sstring
  ring :: "ring_slice option"
  shard_count :: "64 word"
  ignore_msb :: "8 word"
  supported_features :: "sstring set"
  cleanup_st :: cleanup_status
  request_id :: UUID

text \<open>
  \<open>topology::version_t\<close> is \<open>int64_t\<close>: a 64-bit word read as a two's complement
  number.
\<close>

type_synonym version_t = "64 word"

definition version_value :: "version_t \<Rightarrow> int" where
  "version_value v = sint v"

definition initial_version :: version_t where
  "initial_version = 1"

text \<open>
  A \<open>cdc::generation_id_v2\<close> (a timestamp and a UUID) and a \<open>session_id\<close> (a tagged
  UUID) are declared in headers outside the embedded sources.
\<close>

type_synonym generation_id_v2 = "int \<times> UUID"
type_synonym session_id = UUID

record topology =
  tstate :: "transition_state option"
  version :: version_t
  fence_version :: version_t
  normal_nodes :: "server_id \<rightharpoonup> replica_state"
  left_nodes :: "server_id set"
  new_nodes :: "server_id \<rightharpoonup> replica_state"
  transition_nodes :: "server_id \<rightharpoonup> replica_state"
  requests :: "server_id \<rightharpoonup> topology_request"
  req_param :: "server_id \<rightharpoonup> request_param"
  global_request :: "global_topology_request option"
  current_cdc_generation_id :: "generation_id_v2 option"
  new_cdc_generation_data_uuid :: "UUID option"
  unpublished_cdc_generations :: "generation_id_v2 list"
  enabled_features :: "sstring set"
  session :: session_id
  tablet_balancing_enabled :: bool

text \<open>
  The default-constructed topology: every member with a default member initializer
  takes it, the optionals are disengaged, the containers are empty, and the session is
  the null UUID.
\<close>

definition topology_init :: topology where
  "topology_init = \<lparr>
     tstate = None,
     version = initial_version,
     fence_version = initial_version,
     normal_nodes = Map.empty,
     left_nodes = {},
     new_nodes = Map.empty,
     transition_nodes = Map.empty,
     requests = Map.empty,
     req_param = Map.empty,
     global_request = None,
     current_cdc_generation_id = None,
     new_cdc_generation_data_uuid = None,
     unpublished_cdc_generations = [],
     enabled_features = {},
     session = 0,
     tablet_balancing_enabled = True \<rparr>"

subsection \<open>Commands of the coordinator and their result\<close>

record raft_topology_cmd =
  cmd :: command

record raft_topology_cmd_result =
  status :: command_status

definition raft_topology_cmd_result_init :: raft_topology_cmd_result where
  "raft_topology_cmd_result_init = \<lparr> status = fail \<rparr>"

subsection \<open>The fencing token\<close>

record fencing_token =
  topology_version :: version_t

definition fencing_token_init :: fencing_token where
  "fencing_token_init = \<lparr> topology_version = 0 \<rparr>"

text \<open>\<open>explicit operator bool\<close> of the fencing token.\<close>

definition fencing_token_bool :: "fencing_token \<Rightarrow> bool" where
  "fencing_token_bool t = (topology_version t \<noteq> 0)"

subsection \<open>The request queue's selection rule\<close>

text \<open>
  Modelled from the spec: the topology coordinator, which selects the next pending
  request, is not among the embedded sources; the header only declares the request kinds
  and notes that their order is the priority order. The rule is taken from the
  specification of the request queue: if any \<open>replace\<close> is pending, pick it; else any
  \<open>join\<close>; else \<open>remove\<close>; else \<open>leave\<close>; else \<open>rebuild\<close>; ties among nodes at
  the same priority are broken by node id order. The pending per-node requests are the
  entries of the \<open>requests\<close> map, given as a list of pairs.
\<close>

definition priority_order :: "topology_request list" where
  "priority_order = [replace, join, remove, leave, rebuild]"

text \<open>
  Modelled from the spec: the nodes with a pending request of kind \<open>k\<close>, in node id
  order (the order that breaks ties).
\<close>

definition pending :: "topology_request \<Rightarrow> (server_id \<times> topology_request) list \<Rightarrow> server_id list" where
  "pending k reqs = sort (map fst (filter (\<lambda>(n, r). r = k) reqs))"

text \<open>
  Modelled from the spec: the first kind of the given list that has a pending request,
  with the first of its nodes (if any ... pick it; else ...).
\<close>

fun pick_first ::
  "topology_request list \<Rightarrow> (server_id \<times> topology_request) list \<Rightarrow>
   (server_id \<times> topology_request) option" where
  "pick_first [] reqs = None"
| "pick_first (k # ks) reqs =
     (case pending k reqs of
        [] \<Rightarrow> pick_first ks reqs
      | n # _ \<Rightarrow> Some (n, k))"

text \<open>
  Modelled from the spec: the selection rule of an idle coordinator among the per-node
  requests.
\<close>

definition select_request ::
  "(server_id \<times> topology_request) list \<Rightarrow> (server_id \<times> topology_request) option" where
  "select_request reqs = pick_first priority_order reqs"

subsection \<open>The request kind of a parameter bundle\<close>

text \<open>
  Modelled from the spec: which request kind a parameter bundle belongs to is written
  nowhere in the embedded sources except in the names of the structs; the code that
  stores a bundle together with a request is not among them. The table is the one of
  the specification's data model: join: token count; rebuild: source datacenter; remove:
  ignored-nodes set; replace: replaced-node id and ignored-nodes set.
\<close>

fun request_param_kind :: "request_param \<Rightarrow> topology_request" where
  "request_param_kind (Join_param _) = join"
| "request_param_kind (Rebuild_param _) = rebuild"
| "request_param_kind (Removenode_param _) = remove"
| "request_param_kind (Replace_param _) = replace"

subsection \<open>The lifecycle of a node\<close>

text \<open>
  Modelled from the spec: the topology coordinator and the applier, which give a node
  its state, are not among the embedded sources; the header only declares the states and
  notes for each what it stands for. The steps are those of the specification's
  per-node transition state machines. A node enters as \<open>none\<close> when it joins consensus.
  Join and replace: the node is moved from \<open>none\<close> to \<open>bootstrapping\<close> (or
  \<open>replacing\<close>) and in the end promoted to \<open>normal\<close> with its ring slice. Leave and
  remove: the node is moved from \<open>normal\<close> to \<open>decommissioning\<close> or \<open>removing\<close> and
  in the end to \<open>left\<close>; on failure before that it is moved to
  \<open>rollback_to_normal\<close>, from where it returns to \<open>normal\<close>. Rebuild: the states
  used are \<open>rebuilding\<close> and then \<open>normal\<close>.
\<close>

datatype lifecycle_step =
    Start_bootstrap
  | Start_replace
  | Promote ring_slice
  | Start_decommission
  | Start_remove
  | Leave_ring
  | Roll_back
  | Return_to_normal
  | Start_rebuild
  | Finish_rebuild

text \<open>
  Modelled from the spec: the state a step leads to, from the states in which the
  specification takes it.
\<close>

fun next_state :: "lifecycle_step \<Rightarrow> node_state \<Rightarrow> node_state option" where
  "next_state Start_bootstrap none = Some bootstrapping"
| "next_state Start_replace none = Some replacing"
| "next_state (Promote sl) bootstrapping = Some normal"
| "next_state (Promote sl) replacing = Some normal"
| "next_state Start_decommission normal = Some decommissioning"
| "next_state Start_remove normal = Some removing"
| "next_state Leave_ring decommissioning = Some left"
| "next_state Leave_ring removing = Some left"
| "next_state Roll_back decommissioning = Some rollback_to_normal"
| "next_state Roll_back removing = Some rollback_to_normal"
| "next_state Return_to_normal rollback_to_normal = Some normal"
| "next_state Start_rebuild normal = Some rebuilding"
| "next_state Finish_rebuild rebuilding = Some normal"
| "next_state _ _ = None"

text \<open>
  Modelled from the spec: the record of a node that joins consensus has the state
  \<open>none\<close> and no ring slice (joined consensus, no data), whatever its other members.
  A promotion gives the node its ring slice; a node that has left keeps none; a
  rollback restores the ownership, which is the slice the record still has.
\<close>

definition enter :: "replica_state \<Rightarrow> replica_state" where
  "enter r = r\<lparr> state := none, ring := None \<rparr>"

definition node_step :: "lifecycle_step \<Rightarrow> replica_state \<Rightarrow> replica_state option" where
  "node_step st r =
     (case next_state st (state r) of
        None \<Rightarrow> None
      | Some ns \<Rightarrow>
          Some (r\<lparr> state := ns,
                   ring := (case st of
                              Promote sl \<Rightarrow> Some sl
                            | Leave_ring \<Rightarrow> None
                            | _ \<Rightarrow> ring r) \<rparr>))"

fun lifecycle :: "lifecycle_step list \<Rightarrow> replica_state \<Rightarrow> replica_state option" where
  "lifecycle [] r = Some r"
| "lifecycle (st # sts) r =
     (case node_step st r of
        None \<Rightarrow> None
      | Some r' \<Rightarrow> lifecycle sts r')"

text \<open>
  The record of a node that joins consensus, for the examples below.
\<close>

definition joining_replica :: replica_state where
  "joining_replica =
     enter \<lparr> state = normal, datacenter = ''dc1'', rack = ''rack1'', release_version = ''5.4'',
       ring = Some \<lparr> tokens = {7} \<rparr>, shard_count = 8, ignore_msb = 12,
       supported_features = {}, cleanup_st = clean, request_id = 0 \<rparr>"

subsection \<open>The entries of the request queue\<close>

text \<open>
  Modelled from the spec: the request queue and the applier, which store a request and
  its parameters in the topology, are not among the embedded sources. A per-node request
  as the queue accepts it is one of \<open>replace\<close>, \<open>join\<close>, \<open>remove\<close>, \<open>leave\<close>,
  \<open>rebuild\<close> with its typed parameters, which are those of the data model (join:
  token count; rebuild: source datacenter; remove: ignored-nodes set; replace:
  replaced-node id and ignored-nodes set); a leave request has none.
\<close>

datatype node_request =
    Replace_request replace_param
  | Join_request join_param
  | Remove_request removenode_param
  | Leave_request
  | Rebuild_request rebuild_param

fun request_kind :: "node_request \<Rightarrow> topology_request" where
  "request_kind (Replace_request _) = replace"
| "request_kind (Join_request _) = join"
| "request_kind (Remove_request _) = remove"
| "request_kind Leave_request = leave"
| "request_kind (Rebuild_request _) = rebuild"

fun request_bundle :: "node_request \<Rightarrow> request_param option" where
  "request_bundle (Replace_request p) = Some (Replace_param p)"
| "request_bundle (Join_request p) = Some (Join_param p)"
| "request_bundle (Remove_request p) = Some (Removenode_param p)"
| "request_bundle Leave_request = None"
| "request_bundle (Rebuild_request p) = Some (Rebuild_param p)"

text \<open>
  Modelled from the spec: the queued state is the \<open>requests\<close> and \<open>req_param\<close>
  fields of the topology. The entries that change them are the applier's
  \<open>set per-node request\<close>; the promotion of a node to normal, which clears its
  request and its parameters; the move of a node to the left nodes, which clears its
  request, and its parameters with it (the parameters of a node persist until it
  reaches normal or left); and the rollback of a failed leave or remove, which clears
  the request.
\<close>

datatype queue_entry =
    Set_request server_id node_request
  | Node_promoted server_id
  | Node_left server_id
  | Node_rolled_back server_id

fun apply_entry :: "queue_entry \<Rightarrow> topology \<Rightarrow> topology" where
  "apply_entry (Set_request n rq) t =
     t\<lparr> requests := (requests t)(n \<mapsto> request_kind rq),
        req_param := (req_param t)(n := request_bundle rq) \<rparr>"
| "apply_entry (Node_promoted n) t =
     t\<lparr> requests := (requests t)(n := None), req_param := (req_param t)(n := None) \<rparr>"
| "apply_entry (Node_left n) t =
     t\<lparr> requests := (requests t)(n := None), req_param := (req_param t)(n := None) \<rparr>"
| "apply_entry (Node_rolled_back n) t = t\<lparr> requests := (requests t)(n := None) \<rparr>"

definition apply_entries :: "queue_entry list \<Rightarrow> topology \<Rightarrow> topology" where
  "apply_entries es t = fold apply_entry es t"

section \<open>The CQL server controller (transport/controller.cc)\<close>

text \<open>
  The controller runs on one shard of a cooperative scheduler: between two suspension
  points its code is atomic. Each member function is a function from the state before
  the call to the result and the state after it. The state has three parts: the
  controller's own members, the part of the outside world the controller acts on (the
  file system under the maintenance socket's path, and the readiness published through
  gossip), and the trace of the external calls made so far, in the order they were
  made, with the units the semaphore had at each of them. Whether an external call
  fails is not decided by the controller: the environment \<open>env\<close> gives the outcome of
  each.

  Embedded are the constructor, \<open>start_server\<close> with \<open>do_start_server\<close>,
  \<open>request_stop_server\<close> with \<open>do_stop_server\<close>, and \<open>set_cql_ready\<close>. The
  \<open>stop_server\<close> of the shutdown, which waits for the semaphore and then breaks it for
  good, is not. The log messages are left out, and so are the arguments that are passed
  on unchanged (the server's configuration bundle, the keepalive flag of \<open>listen\<close>).
\<close>

subsection \<open>Errors, the environment and the trace of effects\<close>

text \<open>
  A \<open>Runtime_error\<close> is a \<open>std::runtime_error\<close> thrown by the controller itself, with
  its message. An \<open>External_error\<close> is an exception thrown by a collaborator.
  \<open>Terminated\<close> is the end of the process: an exception that leaves a deferred action
  (a destructor) calls \<open>std::terminate\<close>.
\<close>

datatype error =
    Runtime_error string
  | External_error string
  | Terminated

text \<open>
  The value of \<open>errno\<close> after a system call that failed is a number; \<open>ENOENT\<close>
  (no such file or directory) is the number 2.
\<close>

type_synonym errno = nat

definition ENOENT :: errno where
  "ENOENT = 2"

text \<open>What \<open>S_ISSOCK\<close> tells of a file: a unix-domain socket, or something else.\<close>

datatype file_type = Socket_file | Other_file

type_synonym inet_address = string

datatype inet_family = INET | INET6

datatype socket_address =
    Inet_addr inet_address "16 word"
  | Unix_domain_addr string

datatype credentials_builder = Credentials_builder

record listen_cfg =
  addr :: socket_address
  is_shard_aware :: bool
  cred :: "credentials_builder option"

datatype effect =
    Create_smp_service_group
  | Resolve string "inet_family option" "inet_family option"
  | Configure_tls
  | Stat string
  | Unlink string
  | Server_start
  | Subscribe
  | Listen listen_cfg
  | Set_cql_ready bool
  | Unsubscribe
  | Shutdown
  | Server_stop

text \<open>
  An event of the trace is an external call together with its outcome: \<open>Done\<close> when it
  returned normally (for a system call: 0), \<open>Failed\<close> when it threw (for a system call:
  returned -1).
\<close>

datatype event = Done effect | Failed effect

text \<open>
  The outcomes of the external calls. A fault of \<open>stat\<close> or \<open>unlink\<close> makes the
  call on that path fail with the given \<open>errno\<close>, whatever files there are: it stands
  for all that the files of the world below do not tell (a permission that is missing, a
  component of the path that is missing, a file that another process has removed since
  it was last seen).
\<close>

record env =
  smp_group_fails :: "error option"
  resolve_result :: "string \<Rightarrow> inet_family option \<Rightarrow> inet_family option \<Rightarrow> error + inet_address"
  tls_fails :: "error option"
  stat_fault :: "string \<Rightarrow> errno option"
  unlink_fault :: "string \<Rightarrow> errno option"
  strerror :: "errno \<Rightarrow> string"
  server_start_fails :: "error option"
  subscribe_fails :: "error option"
  listen_fails :: "listen_cfg \<Rightarrow> error option"
  gossip_fails :: "bool \<Rightarrow> error option"
  unsubscribe_fails :: "error option"
  shutdown_fails :: "error option"
  server_stop_fails :: "error option"

text \<open>
  The world: the files by path, and the value of the \<open>RPC_READY\<close> application state
  this node publishes through gossip (\<open>None\<close> as long as none was published).
\<close>

record world =
  files :: "string \<rightharpoonup> file_type"
  cql_ready :: "bool option"

text \<open>
  The two system calls, each with its result (\<open>Inl\<close> the \<open>errno\<close> when it returned
  -1). Without a fault, \<open>stat\<close> returns the type of the file, or fails with \<open>ENOENT\<close>
  when there is none; \<open>unlink\<close> removes the file, or fails with \<open>ENOENT\<close> when there
  is none. An \<open>unlink\<close> that fails with \<open>ENOENT\<close> by a fault found no file either:
  the file that was there has gone in the meantime. After any other fault the files are
  as they were.
\<close>

definition sys_stat :: "env \<Rightarrow> world \<Rightarrow> string \<Rightarrow> errno + file_type" where
  "sys_stat e w path =
     (case stat_fault e path of
        Some n \<Rightarrow> Inl n
      | None \<Rightarrow> (case files w path of None \<Rightarrow> Inl ENOENT | Some t \<Rightarrow> Inr t))"

definition sys_unlink :: "env \<Rightarrow> world \<Rightarrow> string \<Rightarrow> (errno + unit) \<times> world" where
  "sys_unlink e w path =
     (case unlink_fault e path of
        Some n \<Rightarrow>
          (Inl n, if n = ENOENT then w\<lparr> files := (files w)(path := None) \<rparr> else w)
      | None \<Rightarrow>
          (case files w path of
             None \<Rightarrow> (Inl ENOENT, w)
           | Some t \<Rightarrow> (Inr (), w\<lparr> files := (files w)(path := None) \<rparr>)))"

subsection \<open>Configuration and the controller\<close>

text \<open>
  A configuration item knows whether it was set, and has a value either way (the
  default when it was not set). Of \<open>db::config\<close> the record holds the items the
  controller reads to decide what to listen on; \<open>client_encryption_enabled\<close> stands for
  the \<open>enabled\<close> entry of the client encryption options, read by \<open>utils::is_true\<close>.
\<close>

record 'a named_value =
  is_set :: bool
  get :: 'a

record db_config =
  rpc_address :: string
  rpc_interface_prefer_ipv6 :: bool
  enable_ipv6_dns_lookup :: bool
  client_encryption_enabled :: bool
  native_transport_port :: "16 word named_value"
  native_transport_port_ssl :: "16 word named_value"
  native_shard_aware_transport_port :: "16 word named_value"
  native_shard_aware_transport_port_ssl :: "16 word named_value"
  maintenance_socket :: string
  work_directory :: string

datatype cql_server = Cql_server

text \<open>
  The members of the controller the modelled functions use: \<open>_ops_sem\<close> (the number of
  units available), \<open>_server\<close>, \<open>_listen_addresses\<close>, \<open>_config\<close> and
  \<open>_used_by_maintenance_socket\<close>. The constructor initialises the semaphore with 1.
\<close>

record controller =
  ops_sem :: nat
  server :: "cql_server option"
  listen_addresses :: "socket_address list"
  config :: db_config
  used_by_maintenance_socket :: bool

definition controller_init :: "db_config \<Rightarrow> bool \<Rightarrow> controller" where
  "controller_init cfg maint =
     \<lparr> ops_sem = 1, server = None, listen_addresses = [], config = cfg,
       used_by_maintenance_socket = maint \<rparr>"

text \<open>
  The state: the controller, the world, the trace, and for every event of the trace
  the number of units the semaphore had when the call was made (\<open>sem_seen\<close>). The
  last is not a member of the controller and no function below reads it: it records
  what a request that arrives during that call finds, the calls being the places where
  the operation is suspended and another request can run.
\<close>

record sys =
  ctl :: controller
  wld :: world
  trace :: "event list"
  sem_seen :: "nat list"

definition emit :: "event \<Rightarrow> sys \<Rightarrow> sys" where
  "emit ev s = s\<lparr> trace := trace s @ [ev], sem_seen := sem_seen s @ [ops_sem (ctl s)] \<rparr>"

definition push_listen_address :: "socket_address \<Rightarrow> sys \<Rightarrow> sys" where
  "push_listen_address a s =
     s\<lparr> ctl := (ctl s)\<lparr> listen_addresses := listen_addresses (ctl s) @ [a] \<rparr> \<rparr>"

definition push_listen_addresses :: "socket_address list \<Rightarrow> sys \<Rightarrow> sys" where
  "push_listen_addresses as s = fold push_listen_address as s"

subsection \<open>The operations semaphore\<close>

text \<open>
  \<open>try_wait\<close> takes one unit if one is available and says whether it did; \<open>signal\<close>
  gives one unit back.
\<close>

definition try_wait :: "nat \<Rightarrow> nat option" where
  "try_wait count = (if 1 \<le> count then Some (count - 1) else None)"

definition signal :: "nat \<Rightarrow> nat" where
  "signal count = count + 1"

subsection \<open>External calls\<close>

definition call :: "effect \<Rightarrow> error option \<Rightarrow> sys \<Rightarrow> (error + unit) \<times> sys" where
  "call ef outcome s =
     (case outcome of
        Some err \<Rightarrow> (Inl err, emit (Failed ef) s)
      | None \<Rightarrow> (Inr (), emit (Done ef) s))"

text \<open>
  \<open>set_cql_ready\<close> publishes the readiness as the one application state \<open>RPC_READY\<close>;
  a call that fails publishes nothing.
\<close>

definition set_cql_ready :: "env \<Rightarrow> bool \<Rightarrow> sys \<Rightarrow> (error + unit) \<times> sys" where
  "set_cql_ready e ready s =
     (case gossip_fails e ready of
        Some err \<Rightarrow> (Inl err, emit (Failed (Set_cql_ready ready)) s)
      | None \<Rightarrow>
          (Inr (), emit (Done (Set_cql_ready ready)) (s\<lparr> wld := (wld s)\<lparr> cql_ready := Some ready \<rparr> \<rparr>)))"

subsection \<open>The listeners to configure\<close>

text \<open>
  Serving CQL over the network (\<open>_used_by_maintenance_socket\<close> is false). The code
  builds the vector \<open>configs\<close> in three steps: the unencrypted port, the unencrypted
  shard-aware port, and, when client encryption is enabled, the encrypted ports, each of
  them either a listener of its own or the credentials added to the unencrypted listener
  of the same kind. \<open>plain_configs\<close> is the first two steps, with the two indices the
  code keeps; \<open>tls_configs\<close> is the third.
\<close>

definition plain_configs :: "inet_address \<Rightarrow> db_config \<Rightarrow> listen_cfg list \<times> int \<times> int" where
  "plain_configs ip cfg =
     (let configs = [];
          native_port_idx = - 1;
          native_shard_aware_port_idx = - 1;
          (configs, native_port_idx) =
            (if is_set (native_transport_port cfg) \<or>
                (\<not> is_set (native_transport_port_ssl cfg) \<and> \<not> is_set (native_transport_port cfg))
             then (configs @ [\<lparr> addr = Inet_addr ip (get (native_transport_port cfg)),
                                is_shard_aware = False, cred = None \<rparr>], 0)
             else (configs, native_port_idx));
          (configs, native_shard_aware_port_idx) =
            (if is_set (native_shard_aware_transport_port cfg) \<or>
                (\<not> is_set (native_shard_aware_transport_port_ssl cfg) \<and>
                 \<not> is_set (native_shard_aware_transport_port cfg))
             then (configs @ [\<lparr> addr = Inet_addr ip (get (native_shard_aware_transport_port cfg)),
                                is_shard_aware = True, cred = None \<rparr>], native_port_idx + 1)
             else (configs, native_shard_aware_port_idx))
      in (configs, native_port_idx, native_shard_aware_port_idx))"

definition tls_configs ::
  "inet_address \<Rightarrow> db_config \<Rightarrow> credentials_builder \<Rightarrow> listen_cfg list \<times> int \<times> int \<Rightarrow> listen_cfg list" where
  "tls_configs ip cfg cr st =
     (let (configs, native_port_idx, native_shard_aware_port_idx) = st;
          configs =
            (if is_set (native_transport_port_ssl cfg) \<and>
                (\<not> is_set (native_transport_port cfg) \<or>
                 get (native_transport_port_ssl cfg) \<noteq> get (native_transport_port cfg))
             then configs @ [\<lparr> addr = Inet_addr ip (get (native_transport_port_ssl cfg)),
                               is_shard_aware = False, cred = Some cr \<rparr>]
             else if 0 \<le> native_port_idx
             then configs[nat native_port_idx := (configs ! nat native_port_idx)\<lparr> cred := Some cr \<rparr>]
             else configs);
          configs =
            (if is_set (native_shard_aware_transport_port_ssl cfg) \<and>
                (\<not> is_set (native_shard_aware_transport_port cfg) \<or>
                 get (native_shard_aware_transport_port_ssl cfg) \<noteq>
                   get (native_shard_aware_transport_port cfg))
             then configs @ [\<lparr> addr = Inet_addr ip (get (native_shard_aware_transport_port_ssl cfg)),
                               is_shard_aware = True, cred = Some cr \<rparr>]
             else if 0 \<le> native_shard_aware_port_idx
             then configs[nat native_shard_aware_port_idx :=
                    (configs ! nat native_shard_aware_port_idx)\<lparr> cred := Some cr \<rparr>]
             else configs)
      in configs)"

text \<open>
  The address to listen on is \<open>rpc_address\<close>, resolved with the address family the
  configuration asks for: \<open>preferred\<close> is IPv6 when the configuration prefers it, and
  \<open>family\<close> restricts the lookup to IPv4 unless IPv6 lookups are enabled or preferred.
\<close>

definition preferred :: "db_config \<Rightarrow> inet_family option" where
  "preferred cfg = (if rpc_interface_prefer_ipv6 cfg then Some INET6 else None)"

definition family :: "db_config \<Rightarrow> inet_family option" where
  "family cfg =
     (if enable_ipv6_dns_lookup cfg \<or> preferred cfg \<noteq> None then None else Some INET)"

definition resolve_effect :: "db_config \<Rightarrow> effect" where
  "resolve_effect cfg = Resolve (rpc_address cfg) (family cfg) (preferred cfg)"

definition resolve :: "env \<Rightarrow> db_config \<Rightarrow> error + inet_address" where
  "resolve e cfg = resolve_result e (rpc_address cfg) (family cfg) (preferred cfg)"

text \<open>
  Every \<open>emplace_back\<close> on \<open>configs\<close> is followed by a \<open>push_back\<close> of the new
  listener's address on \<open>_listen_addresses\<close>, so the member holds the addresses pushed
  so far when resolving the address or configuring the credentials throws.
\<close>

definition inet_configs :: "env \<Rightarrow> sys \<Rightarrow> (error + listen_cfg list) \<times> sys" where
  "inet_configs e s =
     (let cfg = config (ctl s) in
      case resolve e cfg of
        Inl err \<Rightarrow> (Inl err, emit (Failed (resolve_effect cfg)) s)
      | Inr ip \<Rightarrow>
          (let s = emit (Done (resolve_effect cfg)) s;
               st = plain_configs ip cfg;
               s = push_listen_addresses (map addr (fst st)) s
           in if client_encryption_enabled cfg
              then (case call Configure_tls (tls_fails e) s of
                      (Inl err, s) \<Rightarrow> (Inl err, s)
                    | (Inr _, s) \<Rightarrow>
                        (let configs = tls_configs ip cfg Credentials_builder st
                         in (Inr configs,
                             push_listen_addresses (map addr (drop (length (fst st)) configs)) s)))
              else (Inr (fst st), s)))"

text \<open>Serving over the maintenance socket: the path, and the checks before listening.\<close>

definition maintenance_socket_path :: "db_config \<Rightarrow> string" where
  "maintenance_socket_path cfg =
     (let socket = maintenance_socket cfg
      in if socket = ''workdir'' then work_directory cfg @ ''/cql.m'' else socket)"

definition maintenance_cfg :: "string \<Rightarrow> listen_cfg" where
  "maintenance_cfg socket = \<lparr> addr = Unix_domain_addr socket, is_shard_aware = False, cred = None \<rparr>"

definition unlink_socket :: "env \<Rightarrow> string \<Rightarrow> sys \<Rightarrow> (error + listen_cfg list) \<times> sys" where
  "unlink_socket e socket s =
     (case sys_unlink e (wld s) socket of
        (Inl en, w) \<Rightarrow>
          if en \<noteq> ENOENT
          then (Inl (Runtime_error (''Failed to unlink '' @ socket @ '': '' @ strerror e en)),
                emit (Failed (Unlink socket)) (s\<lparr> wld := w \<rparr>))
          else (Inr [maintenance_cfg socket],
                push_listen_address (Unix_domain_addr socket)
                  (emit (Failed (Unlink socket)) (s\<lparr> wld := w \<rparr>)))
      | (Inr _, w) \<Rightarrow>
          (Inr [maintenance_cfg socket],
           push_listen_address (Unix_domain_addr socket)
             (emit (Done (Unlink socket)) (s\<lparr> wld := w \<rparr>))))"

definition maintenance_configs :: "env \<Rightarrow> sys \<Rightarrow> (error + listen_cfg list) \<times> sys" where
  "maintenance_configs e s =
     (let socket = maintenance_socket_path (config (ctl s))
      in if 107 < length socket
         then (Inl (Runtime_error (''Maintenance socket path is too long: '' @ socket @
                 ''. Change it to string shorter than 108 chars.'')), s)
         else (case sys_stat e (wld s) socket of
                 Inr t \<Rightarrow>
                   if t \<noteq> Socket_file
                   then (Inl (Runtime_error (''Under maintenance socket path ('' @ socket @
                           '') there is something else.'')), emit (Done (Stat socket)) s)
                   else unlink_socket e socket (emit (Done (Stat socket)) s)
               | Inl en \<Rightarrow>
                   if en \<noteq> ENOENT
                   then (Inl (Runtime_error (''Failed to stat '' @ socket @ '': '' @ strerror e en)),
                         emit (Failed (Stat socket)) s)
                   else unlink_socket e socket (emit (Failed (Stat socket)) s)))"

text \<open>
  The listeners the configuration asks for, as the two functions above compute them.
\<close>

definition configured_listeners :: "env \<Rightarrow> controller \<Rightarrow> listen_cfg list" where
  "configured_listeners e c =
     (if used_by_maintenance_socket c
      then [maintenance_cfg (maintenance_socket_path (config c))]
      else (case resolve e (config c) of
              Inl err \<Rightarrow> []
            | Inr ip \<Rightarrow>
                if client_encryption_enabled (config c)
                then tls_configs ip (config c) Credentials_builder (plain_configs ip (config c))
                else fst (plain_configs ip (config c))))"

subsection \<open>Starting the server\<close>

text \<open>
  \<open>parallel_for_each\<close> calls \<open>listen\<close> for every listener, waits for all of them and
  then fails if one of them failed; here they are started in the order of \<open>configs\<close>,
  and the error is the one of the first that failed.
\<close>

fun listen_all :: "env \<Rightarrow> listen_cfg list \<Rightarrow> sys \<Rightarrow> error option \<times> sys" where
  "listen_all e [] s = (None, s)"
| "listen_all e (c # cs) s =
     (case listen_fails e c of
        None \<Rightarrow> listen_all e cs (emit (Done (Listen c)) s)
      | Some err \<Rightarrow> (Some err, snd (listen_all e cs (emit (Failed (Listen c)) s))))"

text \<open>
  The two deferred actions that run when the start fails after the server object was
  started: \<open>on_error\<close> stops it, \<open>on_error_unsub\<close> unsubscribes it first. The
  exception then goes on to the caller.
\<close>

definition on_error :: "env \<Rightarrow> error \<Rightarrow> sys \<Rightarrow> (error + unit) \<times> sys" where
  "on_error e err s =
     (case call Server_stop (server_stop_fails e) s of
        (Inl _, s) \<Rightarrow> (Inl Terminated, s)
      | (Inr _, s) \<Rightarrow> (Inl err, s))"

definition on_error_unsub :: "env \<Rightarrow> error \<Rightarrow> sys \<Rightarrow> (error + unit) \<times> sys" where
  "on_error_unsub e err s =
     (case call Unsubscribe (unsubscribe_fails e) s of
        (Inl _, s) \<Rightarrow> (Inl Terminated, s)
      | (Inr _, s) \<Rightarrow> on_error e err s)"

definition start_listeners :: "env \<Rightarrow> listen_cfg list \<Rightarrow> sys \<Rightarrow> (error + unit) \<times> sys" where
  "start_listeners e configs s =
     (case call Server_start (server_start_fails e) s of
        (Inl err, s) \<Rightarrow> (Inl err, s)
      | (Inr _, s) \<Rightarrow>
          (case call Subscribe (subscribe_fails e) s of
             (Inl err, s) \<Rightarrow> on_error e err s
           | (Inr _, s) \<Rightarrow>
               (case listen_all e configs s of
                  (Some err, s) \<Rightarrow> on_error_unsub e err s
                | (None, s) \<Rightarrow>
                    (case set_cql_ready e True s of
                       (Inl err, s) \<Rightarrow> on_error_unsub e err s
                     | (Inr _, s) \<Rightarrow>
                         (Inr (), s\<lparr> ctl := (ctl s)\<lparr> server := Some Cql_server \<rparr> \<rparr>)))))"

definition do_start_server :: "env \<Rightarrow> sys \<Rightarrow> (error + unit) \<times> sys" where
  "do_start_server e s =
     (if server (ctl s) \<noteq> None then (Inr (), s)
      else (case call Create_smp_service_group (smp_group_fails e) s of
              (Inl err, s) \<Rightarrow> (Inl err, s)
            | (Inr _, s) \<Rightarrow>
                (let s = s\<lparr> ctl := (ctl s)\<lparr> listen_addresses := [] \<rparr> \<rparr>
                 in case (if \<not> used_by_maintenance_socket (ctl s)
                          then inet_configs e s else maintenance_configs e s) of
                      (Inl err, s) \<Rightarrow> (Inl err, s)
                    | (Inr configs, s) \<Rightarrow> start_listeners e configs s)))"

text \<open>
  \<open>finally\<close> gives the unit of the semaphore back when the operation is over, whether
  it failed or not; nothing runs once the process was terminated.
\<close>

definition finally_signal :: "(error + unit) \<times> sys \<Rightarrow> (error + unit) \<times> sys" where
  "finally_signal rs =
     (case rs of
        (Inl Terminated, s) \<Rightarrow> (Inl Terminated, s)
      | (r, s) \<Rightarrow> (r, s\<lparr> ctl := (ctl s)\<lparr> ops_sem := signal (ops_sem (ctl s)) \<rparr> \<rparr>))"

definition start_server :: "env \<Rightarrow> sys \<Rightarrow> (error + unit) \<times> sys" where
  "start_server e s =
     (case try_wait (ops_sem (ctl s)) of
        None \<Rightarrow> (Inl (Runtime_error ''CQL server is stopping, try again later''), s)
      | Some n \<Rightarrow> finally_signal (do_start_server e (s\<lparr> ctl := (ctl s)\<lparr> ops_sem := n \<rparr> \<rparr>)))"

subsection \<open>Stopping the server\<close>

text \<open>
  \<open>do_stop_server\<close> takes the server out of the controller first. It keeps the first
  exception (of publishing the readiness, or of unsubscribing and shutting down) in
  \<open>ex\<close>, starts the server's \<open>stop\<close> in the background either way, and rethrows \<open>ex\<close>
  at the end.
\<close>

definition do_stop_server :: "env \<Rightarrow> sys \<Rightarrow> (error + unit) \<times> sys" where
  "do_stop_server e s =
     (case server (ctl s) of
        None \<Rightarrow> (Inr (), s)
      | Some cserver \<Rightarrow>
          (let s = s\<lparr> ctl := (ctl s)\<lparr> server := None \<rparr> \<rparr>;
               (r, s) = set_cql_ready e False s;
               ex = (case r of Inl err \<Rightarrow> Some err | Inr _ \<Rightarrow> None);
               (r, s) = (case call Unsubscribe (unsubscribe_fails e) s of
                           (Inl err, s) \<Rightarrow> (Inl err, s)
                         | (Inr _, s) \<Rightarrow> call Shutdown (shutdown_fails e) s);
               ex = (case r of
                       Inl err \<Rightarrow> (case ex of None \<Rightarrow> Some err | Some x \<Rightarrow> Some x)
                     | Inr _ \<Rightarrow> ex);
               s = snd (call Server_stop (server_stop_fails e) s)
           in case ex of
                Some err \<Rightarrow> (Inl err, s)
              | None \<Rightarrow> (Inr (), s)))"

definition request_stop_server :: "env \<Rightarrow> sys \<Rightarrow> (error + unit) \<times> sys" where
  "request_stop_server e s =
     (case try_wait (ops_sem (ctl s)) of
        None \<Rightarrow> (Inl (Runtime_error ''CQL server is starting, try again later''), s)
      | Some n \<Rightarrow> finally_signal (do_stop_server e (s\<lparr> ctl := (ctl s)\<lparr> ops_sem := n \<rparr> \<rparr>)))"

subsection \<open>Reading a trace\<close>

text \<open>
  The effects of serving are the calls on the server object and on gossip; the others
  prepare the start. \<open>events_before P tr\<close> are the events of \<open>tr\<close> before the first
  one that satisfies \<open>P\<close>. An event sets the readiness to \<open>b\<close> when it is the call
  that publishes \<open>b\<close>, whether the call went through or failed.
\<close>

fun serving_effect :: "effect \<Rightarrow> bool" where
  "serving_effect Create_smp_service_group = False"
| "serving_effect (Resolve _ _ _) = False"
| "serving_effect Configure_tls = False"
| "serving_effect (Stat _) = False"
| "serving_effect (Unlink _) = False"
| "serving_effect Server_start = True"
| "serving_effect Subscribe = True"
| "serving_effect (Listen _) = True"
| "serving_effect (Set_cql_ready _) = True"
| "serving_effect Unsubscribe = True"
| "serving_effect Shutdown = True"
| "serving_effect Server_stop = True"

fun effect_of :: "event \<Rightarrow> effect" where
  "effect_of (Done ef) = ef"
| "effect_of (Failed ef) = ef"

definition events_before :: "(event \<Rightarrow> bool) \<Rightarrow> event list \<Rightarrow> event list" where
  "events_before P tr = takeWhile (\<lambda>ev. \<not> P ev) tr"

definition sets_cql_ready :: "bool \<Rightarrow> event \<Rightarrow> bool" where
  "sets_cql_ready b ev = (effect_of ev = Set_cql_ready b)"

text \<open>
  The checks of the maintenance socket fail when its path is longer than 107
  characters, when \<open>stat\<close> finds something at the path that is not a socket or fails
  with an error other than \<open>ENOENT\<close>, or when \<open>unlink\<close> fails with an error other
  than \<open>ENOENT\<close>.
\<close>

definition socket_check_fails :: "env \<Rightarrow> world \<Rightarrow> string \<Rightarrow> bool" where
  "socket_check_fails e w path \<longleftrightarrow>
     107 < length path
     \<or> (case sys_stat e w path of Inr t \<Rightarrow> t \<noteq> Socket_file | Inl n \<Rightarrow> n \<noteq> ENOENT)
     \<or> (case fst (sys_unlink e w path) of Inr u \<Rightarrow> False | Inl n \<Rightarrow> n \<noteq> ENOENT)"

text \<open>
  \<open>run_of s s' tr\<close>: from \<open>s\<close> to \<open>s'\<close> the trace grew by \<open>tr\<close>, every call of
  \<open>tr\<close> was made with the units the semaphore has in \<open>s\<close>, and the semaphore and
  the configuration of the controller stayed as they were.
\<close>

definition run_of :: "sys \<Rightarrow> sys \<Rightarrow> event list \<Rightarrow> bool" where
  "run_of s s' tr \<longleftrightarrow>
     trace s' = trace s @ tr
     \<and> sem_seen s' = sem_seen s @ replicate (length tr) (ops_sem (ctl s))
     \<and> ops_sem (ctl s') = ops_sem (ctl s) \<and> config (ctl s') = config (ctl s)
     \<and> used_by_maintenance_socket (ctl s') = used_by_maintenance_socket (ctl s)"

text \<open>The events of the calls to \<open>listen\<close>, and the events the deferred actions can leave.\<close>

definition listen_events :: "env \<Rightarrow> listen_cfg list \<Rightarrow> event list" where
  "listen_events e cs =
     map (\<lambda>c. case listen_fails e c of None \<Rightarrow> Done (Listen c) | Some err \<Rightarrow> Failed (Listen c)) cs"

definition rollback_events :: "event set" where
  "rollback_events = {Done Unsubscribe, Failed Unsubscribe, Done Server_stop, Failed Server_stop}"

subsection \<open>Concrete inputs\<close>

text \<open>
  An environment in which no external call fails, a configuration that sets no port
  and takes the maintenance socket from the work directory, and the state of a freshly
  constructed controller in a world with no file and nothing published.
\<close>

definition env_ok :: env where
  "env_ok = \<lparr> smp_group_fails = None, resolve_result = (\<lambda>a f p. Inr ''10.0.0.1''), tls_fails = None,
     stat_fault = (\<lambda>_. None), unlink_fault = (\<lambda>_. None), strerror = (\<lambda>_. ''error''),
     server_start_fails = None, subscribe_fails = None, listen_fails = (\<lambda>_. None),
     gossip_fails = (\<lambda>_. None), unsubscribe_fails = None, shutdown_fails = None,
     server_stop_fails = None \<rparr>"

definition cfg_default :: db_config where
  "cfg_default = \<lparr> rpc_address = ''localhost'', rpc_interface_prefer_ipv6 = False,
     enable_ipv6_dns_lookup = False, client_encryption_enabled = False,
     native_transport_port = \<lparr> is_set = False, get = 9042 \<rparr>,
     native_transport_port_ssl = \<lparr> is_set = False, get = 9142 \<rparr>,
     native_shard_aware_transport_port = \<lparr> is_set = False, get = 19042 \<rparr>,
     native_shard_aware_transport_port_ssl = \<lparr> is_set = False, get = 19142 \<rparr>,
     maintenance_socket = ''workdir'', work_directory = ''/var/lib/scylla'' \<rparr>"

definition sys_init :: "db_config \<Rightarrow> bool \<Rightarrow> sys" where
  "sys_init cfg maint =
     \<lparr> ctl = controller_init cfg maint, wld = \<lparr> files = Map.empty, cql_ready = None \<rparr>,
       trace = [], sem_seen = [] \<rparr>"

text \<open>
  The state after a first successful start; an environment in which gossip is down; two
  configurations whose work directories make the socket's path 108 and 107 characters
  long; a controller for the maintenance socket in a world where a file of the given
  type is at the socket's path; two environments in which \<open>stat\<close> and \<open>unlink\<close>
  are denied (error 13, \<open>EACCES\<close>); and an environment in which the file has disappeared
  when it comes to \<open>unlink\<close>.
\<close>

definition sys_running :: "bool \<Rightarrow> sys" where
  "sys_running maint = snd (start_server env_ok (sys_init cfg_default maint))"

definition env_gossip_down :: env where
  "env_gossip_down = env_ok\<lparr> gossip_fails := (\<lambda>b. Some (External_error ''gossip'')) \<rparr>"







section \<open>Properties of the data model\<close>

subsection \<open>Selection by priority\<close>

lemma pending_Nil: "pending k reqs = [] \<longleftrightarrow> (\<forall>m. (m, k) \<notin> set reqs)"
proof -
  have "pending k reqs = [] \<longleftrightarrow> set (pending k reqs) = {}" by simp
  also have "\<dots> \<longleftrightarrow> (\<forall>m. (m, k) \<notin> set reqs)"
    by (force simp: pending_def)
  finally show ?thesis .
qed

lemma pending_Cons:
  assumes "pending k reqs = n # ns"
  shows "(n, k) \<in> set reqs" and "(m, k) \<in> set reqs \<Longrightarrow> n \<le> m"
proof -
  have s: "set (n # ns) = {m. (m, k) \<in> set reqs}"
    unfolding assms [symmetric] by (force simp: pending_def)
  then show "(n, k) \<in> set reqs" by auto
  have "sorted (n # ns)" unfolding assms [symmetric] by (simp add: pending_def)
  moreover assume "(m, k) \<in> set reqs"
  then have "m \<in> set (n # ns)" using s by simp
  ultimately show "n \<le> m" by auto
qed

lemma pick_first_None:
  "pick_first ks reqs = None \<longleftrightarrow> (\<forall>k \<in> set ks. \<forall>m. (m, k) \<notin> set reqs)"
proof (induction ks)
  case Nil
  then show ?case by simp
next
  case (Cons a ks)
  show ?case
  proof (cases "pending a reqs")
    case Nil
    then have "\<forall>m. (m, a) \<notin> set reqs" by (simp add: pending_Nil)
    with Nil Cons.IH show ?thesis by simp
  next
    case (Cons n ns)
    from pending_Cons(1) [OF this] have "(n, a) \<in> set reqs" .
    with Cons show ?thesis by auto
  qed
qed

lemma pick_first_Some:
  assumes "pick_first ks reqs = Some (n, k)"
  shows "\<exists>pre post. ks = pre @ k # post \<and> (\<forall>k' \<in> set pre. \<forall>m. (m, k') \<notin> set reqs)
           \<and> (n, k) \<in> set reqs \<and> (\<forall>m. (m, k) \<in> set reqs \<longrightarrow> n \<le> m)"
  using assms
proof (induction ks)
  case Nil
  then show ?case by simp
next
  case (Cons a ks)
  show ?case
  proof (cases "pending a reqs")
    case Nil
    with Cons.prems have "pick_first ks reqs = Some (n, k)" by simp
    from Cons.IH [OF this] obtain pre post where
      h: "ks = pre @ k # post" "\<forall>k' \<in> set pre. \<forall>m. (m, k') \<notin> set reqs"
         "(n, k) \<in> set reqs" "\<forall>m. (m, k) \<in> set reqs \<longrightarrow> n \<le> m" by blast
    from Nil have "\<forall>m. (m, a) \<notin> set reqs" by (simp add: pending_Nil)
    with h have "a # ks = (a # pre) @ k # post
        \<and> (\<forall>k' \<in> set (a # pre). \<forall>m. (m, k') \<notin> set reqs)"
      by simp
    with h show ?thesis by blast
  next
    case (Cons n' ns)
    with Cons.prems have e: "n' = n" "a = k" by simp_all
    from pending_Cons [OF Cons] e
    have "(n, k) \<in> set reqs" "\<forall>m. (m, k) \<in> set reqs \<longrightarrow> n \<le> m"
      by auto
    then have "a # ks = [] @ k # ks \<and> (\<forall>k' \<in> set []. \<forall>m. (m, k') \<notin> set reqs)
        \<and> (n, k) \<in> set reqs \<and> (\<forall>m. (m, k) \<in> set reqs \<longrightarrow> n \<le> m)"
      using e by simp
    then show ?thesis by blast
  qed
qed

lemma priority_rank_cases:
  "topology_request_value k \<le> topology_request_value k'
   \<or> k' \<in> set (takeWhile (\<lambda>x. x \<noteq> k) priority_order)"
  by (cases k; cases k'; simp add: priority_order_def)

lemma select_request_Some:
  assumes "select_request reqs = Some (n, k)"
  shows "(n, k) \<in> set reqs
       \<and> (\<forall>(m, k') \<in> set reqs.
            topology_request_value k \<le> topology_request_value k' \<and> (k' = k \<longrightarrow> n \<le> m))"
proof -
  from pick_first_Some [OF assms [unfolded select_request_def]] obtain pre post where
    h: "priority_order = pre @ k # post" "\<forall>k' \<in> set pre. \<forall>m. (m, k') \<notin> set reqs"
       "(n, k) \<in> set reqs" "\<forall>m. (m, k) \<in> set reqs \<longrightarrow> n \<le> m" by blast
  have d: "distinct priority_order" by (simp add: priority_order_def)
  have tw: "takeWhile (\<lambda>x. x \<noteq> k) priority_order = pre"
    using d unfolding h(1) by (auto simp: takeWhile_tail)
  show ?thesis
  proof (intro conjI)
    show "(n, k) \<in> set reqs" by (rule h(3))
    show "\<forall>(m, k') \<in> set reqs.
            topology_request_value k \<le> topology_request_value k' \<and> (k' = k \<longrightarrow> n \<le> m)"
    proof (clarify, intro conjI)
      fix m k' assume a: "(m, k') \<in> set reqs"
      from priority_rank_cases [of k k'] tw h(2) a
      show "topology_request_value k \<le> topology_request_value k'"
        by auto
      from h(4) a show "k' = k \<longrightarrow> n \<le> m" by auto
    qed
  qed
qed

lemma select_request_None: "select_request reqs = None \<longleftrightarrow> reqs = []"
proof
  assume "select_request reqs = None"
  then have n: "\<forall>k \<in> set priority_order. \<forall>m. (m, k) \<notin> set reqs"
    by (simp add: select_request_def pick_first_None)
  have "set priority_order = UNIV"
  proof -
    have "\<And>k. k \<in> set priority_order"
      subgoal for k by (cases k) (simp_all add: priority_order_def)
      done
    then show ?thesis by blast
  qed
  with n have "\<forall>k m. (m, k) \<notin> set reqs" by simp
  then show "reqs = []" by (cases reqs) auto
next
  assume "reqs = []"
  then show "select_request reqs = None"
    by (simp add: select_request_def pick_first_None)
qed

text \<open>
  C1. The order in which the selection rule looks for a pending request, replace, join,
  remove, leave, rebuild, is the declaration order of the request kinds (their
  underlying values are 0 to 4). Of any pending requests the rule selects one, and one
  whose kind comes first in that order among all the kinds pending: no pending request
  has a kind declared earlier than the selected one, so a pending replace is picked
  before any join, a join before any remove, a remove before any leave and a leave
  before any rebuild. Among the nodes with a request of the selected kind it is the one
  with the least id. Nothing is selected only when nothing is pending.
\<close>

theorem select_request_priority:
  "map topology_request_value priority_order = [0, 1, 2, 3, 4]
   \<and> (select_request reqs = None \<longleftrightarrow> reqs = [])
   \<and> (\<forall>n k. select_request reqs = Some (n, k) \<longrightarrow>
        (n, k) \<in> set reqs
        \<and> (\<forall>(m, k') \<in> set reqs.
             topology_request_value k \<le> topology_request_value k' \<and> (k' = k \<longrightarrow> n \<le> m)))"
proof (intro conjI allI impI)
  show "map topology_request_value priority_order = [0, 1, 2, 3, 4]"
    by (simp add: priority_order_def)
  show "select_request reqs = None \<longleftrightarrow> reqs = []"
    by (rule select_request_None)
next
  fix n k assume s: "select_request reqs = Some (n, k)"
  from select_request_Some [OF s] show "(n, k) \<in> set reqs" by simp
  from select_request_Some [OF s]
  show "\<forall>(m, k') \<in> set reqs.
          topology_request_value k \<le> topology_request_value k' \<and> (k' = k \<longrightarrow> n \<le> m)"
    by simp
qed

text \<open>
  The scenario of the specification: with join A, replace B, rebuild C and leave D
  pending (A, B, C, D the nodes 1, 2, 3, 4), B is selected; once B's request is gone, A;
  then D; then C.
\<close>

theorem select_request_priority_witness:
  "select_request [(1, join), (2, replace), (3, rebuild), (4, leave)] = Some (2, replace)
   \<and> (2 :: server_id, replace) \<in> set [(1, join), (2, replace), (3, rebuild), (4, leave)]
   \<and> topology_request_value replace \<le> topology_request_value join
   \<and> topology_request_value replace \<le> topology_request_value rebuild
   \<and> topology_request_value replace \<le> topology_request_value leave
   \<and> select_request [(1, join), (3, rebuild), (4, leave)] = Some (1, join)
   \<and> select_request [(3, rebuild), (4, leave)] = Some (4, leave)
   \<and> select_request [(3, rebuild)] = Some (3, rebuild)"
proof -
  have s: "select_request [(1, join), (2, replace), (3, rebuild), (4, leave)] = Some (2, replace)"
    by code_simp
  have r: "select_request [(1, join), (3, rebuild), (4, leave)] = Some (1, join)"
          "select_request [(3, rebuild), (4, leave)] = Some (4, leave)"
          "select_request [(3, rebuild)] = Some (3, rebuild)"
    by code_simp+
  have "(2 :: server_id, replace) \<in> set [(1, join), (2, replace), (3, rebuild), (4, leave)]
      \<and> (\<forall>(m, k') \<in> set [(1 :: server_id, join), (2, replace), (3, rebuild), (4, leave)].
            topology_request_value replace \<le> topology_request_value k'
            \<and> (k' = replace \<longrightarrow> 2 \<le> m))"
    by (rule select_request_priority [of "[(1, join), (2, replace), (3, rebuild), (4, leave)]",
          THEN conjunct2, THEN conjunct2, rule_format, OF s])
  then show ?thesis using s r by simp
qed

subsection \<open>The fencing token\<close>

text \<open>
  C2, as the claim states it, fails: the token's \<open>topology_version\<close> is not an
  unsigned number. The type is \<open>int64_t\<close>, and the token whose 64 bits are all set
  holds the version -1.
\<close>

theorem fencing_token_unsigned_counterexample:
  "\<not> (0 \<le> version_value (topology_version \<lparr> topology_version = - 1 \<rparr>))"
  by (simp add: version_value_def)

text \<open>
  C2, amended. The fencing token is a single signed 64-bit \<open>topology_version\<close>: its
  value lies between \<open>-2^63\<close> and \<open>2^63 - 1\<close>. The token counts as absent (the caller
  opted out of fencing) if and only if its \<open>topology_version\<close> is 0, and a
  default-constructed token has \<open>topology_version\<close> 0, so it is absent.
\<close>

theorem fencing_token_opt_out:
  "(\<not> fencing_token_bool t \<longleftrightarrow> topology_version t = 0)
   \<and> (\<not> fencing_token_bool t \<longleftrightarrow> version_value (topology_version t) = 0)
   \<and> topology_version fencing_token_init = 0
   \<and> \<not> fencing_token_bool fencing_token_init
   \<and> - (2 ^ 63) \<le> version_value (topology_version t)
   \<and> version_value (topology_version t) < 2 ^ 63"
proof -
  have "- (2 ^ 63) \<le> sint (topology_version t)"
    using sint_ge [of "topology_version t"] by simp
  moreover have "sint (topology_version t) < 2 ^ 63"
    using sint_lt [of "topology_version t"] by simp
  moreover have "(sint (topology_version t) = 0) = (topology_version t = 0)"
    by (rule signed_eq_0_iff)
  ultimately show ?thesis
    by (simp add: fencing_token_bool_def fencing_token_init_def version_value_def)
qed

subsection \<open>The enumerations\<close>

text \<open>
  C3. The current transition state of the topology is optional, and when it is there
  it is one of exactly seven values: \<open>join_group0\<close>, \<open>commit_cdc_generation\<close>,
  \<open>tablet_draining\<close>, \<open>write_both_read_old\<close>, \<open>write_both_read_new\<close>,
  \<open>tablet_migration\<close>, \<open>left_token_ring\<close>. They are declared in this order: their
  underlying values are 0 to 6.
\<close>

theorem transition_state_values:
  "(UNIV :: transition_state set) =
     {join_group0, commit_cdc_generation, tablet_draining, write_both_read_old,
      write_both_read_new, tablet_migration, left_token_ring}
   \<and> tstate t \<in> insert None (Some ` {join_group0, commit_cdc_generation, tablet_draining,
        write_both_read_old, write_both_read_new, tablet_migration, left_token_ring})
   \<and> map transition_state_value
       [join_group0, commit_cdc_generation, tablet_draining, write_both_read_old,
        write_both_read_new, tablet_migration, left_token_ring] = [0, 1, 2, 3, 4, 5, 6]
   \<and> card (UNIV :: transition_state set) = 7"
proof -
  have u: "\<And>x :: transition_state. x \<in> {join_group0, commit_cdc_generation, tablet_draining,
      write_both_read_old, write_both_read_new, tablet_migration, left_token_ring}"
    subgoal for x by (cases x) simp_all
    done
  have m: "tstate t \<in> insert None (Some ` {join_group0, commit_cdc_generation, tablet_draining,
        write_both_read_old, write_both_read_new, tablet_migration, left_token_ring})"
  proof (cases "tstate t")
    case None
    then show ?thesis by simp
  next
    case (Some x)
    with u [of x] show ?thesis by (simp only: insert_iff image_iff) blast
  qed
  have e: "(UNIV :: transition_state set) =
     {join_group0, commit_cdc_generation, tablet_draining, write_both_read_old,
      write_both_read_new, tablet_migration, left_token_ring}"
    using u by blast
  have "card (UNIV :: transition_state set) = 7" unfolding e by simp
  with m e show ?thesis by simp
qed

lemma next_state_not_none: "next_state st s = Some s' \<Longrightarrow> s' \<noteq> none"
  by (cases "(st, s)" rule: next_state.cases) auto

lemma next_state_rollback:
  "next_state st s = Some rollback_to_normal \<Longrightarrow>
     st = Roll_back \<and> (s = decommissioning \<or> s = removing)"
  by (cases "(st, s)" rule: next_state.cases) auto

lemma next_state_from_rollback:
  "next_state st rollback_to_normal = Some s' \<Longrightarrow> st = Return_to_normal \<and> s' = normal"
  by (cases st) auto

lemma node_step_state:
  "node_step st r = Some r' \<Longrightarrow> next_state st (state r) = Some (state r')"
  by (auto simp: node_step_def split: option.splits)

lemma lifecycle_none:
  "lifecycle sts r = Some r' \<Longrightarrow> state r' = none \<Longrightarrow> sts = [] \<and> r' = r"
proof (induction sts arbitrary: r)
  case Nil
  then show ?case by simp
next
  case (Cons st sts)
  from Cons.prems(1) obtain r1 where
    s: "node_step st r = Some r1" and l: "lifecycle sts r1 = Some r'"
    by (auto split: option.splits)
  from Cons.IH [OF l Cons.prems(2)] have "r' = r1" by simp
  with node_step_state [OF s] Cons.prems(2) next_state_not_none show ?case by metis
qed

text \<open>
  C4. The state of a node is one of exactly nine values: \<open>none\<close>, \<open>bootstrapping\<close>,
  \<open>decommissioning\<close>, \<open>removing\<close>, \<open>replacing\<close>, \<open>rebuilding\<close>, \<open>normal\<close>,
  \<open>left\<close>, \<open>rollback_to_normal\<close>, declared in this order. \<open>none\<close> is the state
  of a node that has joined consensus and holds no data: a node enters in this state
  with no ring slice, and a node that is in this state has taken no step of its
  lifecycle yet and has no ring slice. \<open>rollback_to_normal\<close> is used only to undo a
  failed decommission or remove: the one step that leads to it is the rollback of a node
  that is decommissioning or being removed, and the one step that leaves it returns the
  node to \<open>normal\<close> with the ring slice it had.
\<close>

theorem node_state_values:
  "(UNIV :: node_state set) =
     {none, bootstrapping, decommissioning, removing, replacing, rebuilding, normal, left,
      rollback_to_normal}
   \<and> state r \<in> {none, bootstrapping, decommissioning, removing, replacing, rebuilding,
        normal, left, rollback_to_normal}
   \<and> map node_state_value
       [none, bootstrapping, decommissioning, removing, replacing, rebuilding, normal, left,
        rollback_to_normal] = [0, 1, 2, 3, 4, 5, 6, 7, 8]
   \<and> card (UNIV :: node_state set) = 9
   \<and> state (enter r) = none \<and> ring (enter r) = None
   \<and> (lifecycle sts (enter r) = Some r' \<and> state r' = none \<longrightarrow> sts = [] \<and> ring r' = None)
   \<and> (node_step st r = Some r' \<and> state r' = rollback_to_normal \<longrightarrow>
        st = Roll_back \<and> (state r = decommissioning \<or> state r = removing))
   \<and> (node_step st r = Some r' \<and> state r = rollback_to_normal \<longrightarrow>
        st = Return_to_normal \<and> state r' = normal \<and> ring r' = ring r)"
proof -
  have u: "\<And>x :: node_state. x \<in> {none, bootstrapping, decommissioning, removing, replacing,
      rebuilding, normal, left, rollback_to_normal}"
    subgoal for x by (cases x) simp_all
    done
  then have e: "(UNIV :: node_state set) =
     {none, bootstrapping, decommissioning, removing, replacing, rebuilding, normal, left,
      rollback_to_normal}" by blast
  have c: "card (UNIV :: node_state set) = 9" unfolding e by simp
  have n: "state (enter r) = none" "ring (enter r) = None" by (simp_all add: enter_def)
  have l: "lifecycle sts (enter r) = Some r' \<and> state r' = none \<longrightarrow> sts = [] \<and> ring r' = None"
    using lifecycle_none [of sts "enter r" r'] n by auto
  have b: "node_step st r = Some r' \<and> state r' = rollback_to_normal \<longrightarrow>
        st = Roll_back \<and> (state r = decommissioning \<or> state r = removing)"
    using node_step_state [of st r r'] next_state_rollback [of st "state r"] by auto
  have f: "node_step st r = Some r' \<and> state r = rollback_to_normal \<longrightarrow>
        st = Return_to_normal \<and> state r' = normal \<and> ring r' = ring r"
  proof
    assume a: "node_step st r = Some r' \<and> state r = rollback_to_normal"
    with node_step_state [of st r r'] next_state_from_rollback [of st "state r'"]
    have s: "st = Return_to_normal" "state r' = normal" by auto
    with a have "ring r' = ring r" by (auto simp: node_step_def split: option.splits)
    with s show "st = Return_to_normal \<and> state r' = normal \<and> ring r' = ring r" by simp
  qed
  from u [of "state r"] e c n l b f show ?thesis by simp
qed


text \<open>
  A node that joins, bootstraps with two tokens and starts to decommission; the
  decommission is rolled back, and the node returns to normal with its two tokens.
  While it rolls back, no decommission can start.
\<close>

theorem node_state_values_witness:
  "state joining_replica = none \<and> ring joining_replica = None
   \<and> lifecycle [Start_bootstrap, Promote \<lparr> tokens = {1, 2} \<rparr>, Start_decommission]
         joining_replica
       = Some (joining_replica\<lparr> state := decommissioning, ring := Some \<lparr> tokens = {1, 2} \<rparr> \<rparr>)
   \<and> node_step Roll_back
         (joining_replica\<lparr> state := decommissioning, ring := Some \<lparr> tokens = {1, 2} \<rparr> \<rparr>)
       = Some (joining_replica\<lparr> state := rollback_to_normal,
                                  ring := Some \<lparr> tokens = {1, 2} \<rparr> \<rparr>)
   \<and> node_step Return_to_normal
         (joining_replica\<lparr> state := rollback_to_normal, ring := Some \<lparr> tokens = {1, 2} \<rparr> \<rparr>)
       = Some (joining_replica\<lparr> state := normal, ring := Some \<lparr> tokens = {1, 2} \<rparr> \<rparr>)
   \<and> node_step Start_decommission
         (joining_replica\<lparr> state := rollback_to_normal, ring := Some \<lparr> tokens = {1, 2} \<rparr> \<rparr>)
       = None"
proof -
  let ?sl = "\<lparr> tokens = {1 :: token, 2} \<rparr>"
  let ?d = "joining_replica\<lparr> state := decommissioning, ring := Some ?sl \<rparr>"
  let ?b = "joining_replica\<lparr> state := rollback_to_normal, ring := Some ?sl \<rparr>"
  let ?n = "joining_replica\<lparr> state := normal, ring := Some ?sl \<rparr>"
  have j: "enter joining_replica = joining_replica"
    by (simp add: joining_replica_def enter_def)
  have l0: "lifecycle [] (enter joining_replica) = Some joining_replica"
    using j by simp
  have s0: "state joining_replica = none" by (simp add: joining_replica_def enter_def)
  have l: "lifecycle [Start_bootstrap, Promote ?sl, Start_decommission] joining_replica = Some ?d"
    by (simp add: node_step_def s0)
  have b: "node_step Roll_back ?d = Some ?b" by (simp add: node_step_def)
  have n: "node_step Return_to_normal ?b = Some ?n" by (simp add: node_step_def)
  have x: "node_step Start_decommission ?b = None" by (simp add: node_step_def)
  note t1 = node_state_values [of joining_replica "[]" joining_replica Roll_back]
  from t1 l0 s0 have w1: "ring joining_replica = None" by blast
  note t2 = node_state_values [of ?d "[]" ?b Roll_back]
  have "state ?b = rollback_to_normal" by simp
  with t2 b have w2: "state ?d = decommissioning \<or> state ?d = removing" by blast
  note t3 = node_state_values [of ?b "[]" ?n Return_to_normal]
  have "state ?b = rollback_to_normal" by simp
  with t3 n have w3: "state ?n = normal" "ring ?n = ring ?b" by blast+
  from s0 w1 w2 w3 l b n x show ?thesis by simp
qed


subsection \<open>Request parameters\<close>

lemma request_param_shape:
  "(request_param_kind p = join \<and> (\<exists>c. p = Join_param \<lparr> num_tokens = c \<rparr>))
   \<or> (request_param_kind p = rebuild \<and> (\<exists>dc. p = Rebuild_param \<lparr> source_dc = dc \<rparr>))
   \<or> (request_param_kind p = remove
        \<and> (\<exists>ids. p = Removenode_param \<lparr> removenode_param.ignored_ids = ids \<rparr>))
   \<or> (request_param_kind p = replace
        \<and> (\<exists>r ids. p = Replace_param \<lparr> replaced_id = r, replace_param.ignored_ids = ids \<rparr>))"
proof (cases p)
  case (Join_param x)
  have "x = \<lparr> num_tokens = num_tokens x \<rparr>" by simp
  then have "\<exists>c. x = \<lparr> num_tokens = c \<rparr>" by (rule exI)
  with Join_param show ?thesis by simp
next
  case (Rebuild_param x)
  have "x = \<lparr> source_dc = source_dc x \<rparr>" by simp
  then have "\<exists>dc. x = \<lparr> source_dc = dc \<rparr>" by (rule exI)
  with Rebuild_param show ?thesis by simp
next
  case (Removenode_param x)
  have "x = \<lparr> removenode_param.ignored_ids = removenode_param.ignored_ids x \<rparr>" by simp
  then have "\<exists>ids. x = \<lparr> removenode_param.ignored_ids = ids \<rparr>" by (rule exI)
  with Removenode_param show ?thesis by simp
next
  case (Replace_param x)
  have "x = \<lparr> replaced_id = replaced_id x,
              replace_param.ignored_ids = replace_param.ignored_ids x \<rparr>"
    by simp
  then have "\<exists>r ids. x = \<lparr> replaced_id = r, replace_param.ignored_ids = ids \<rparr>" by blast
  with Replace_param show ?thesis by simp
qed

lemma request_bundle_kind:
  "request_bundle rq = Some p \<Longrightarrow> request_param_kind p = request_kind rq"
  "request_bundle rq = None \<Longrightarrow> request_kind rq = leave"
  by (cases rq; auto)+

lemma apply_entry_matches:
  assumes "\<forall>n k. requests t n = Some k \<longrightarrow>
             k = leave \<or> (\<exists>p. req_param t n = Some p \<and> request_param_kind p = k)"
  shows "\<forall>n k. requests (apply_entry en t) n = Some k \<longrightarrow>
             k = leave
             \<or> (\<exists>p. req_param (apply_entry en t) n = Some p \<and> request_param_kind p = k)"
proof (cases en)
  case (Set_request m rq)
  show ?thesis
  proof (cases "request_bundle rq")
    case None
    with Set_request assms request_bundle_kind(2) [OF None] show ?thesis by simp
  next
    case (Some p)
    with Set_request assms request_bundle_kind(1) [OF Some] show ?thesis by simp
  qed
next
  case (Node_promoted m)
  with assms show ?thesis by simp
next
  case (Node_left m)
  with assms show ?thesis by simp
next
  case (Node_rolled_back m)
  with assms show ?thesis by simp
qed

lemma apply_entries_matches:
  assumes "\<forall>n k. requests t n = Some k \<longrightarrow>
             k = leave \<or> (\<exists>p. req_param t n = Some p \<and> request_param_kind p = k)"
  shows "\<forall>n k. requests (apply_entries es t) n = Some k \<longrightarrow>
             k = leave
             \<or> (\<exists>p. req_param (apply_entries es t) n = Some p \<and> request_param_kind p = k)"
  using assms unfolding apply_entries_def
proof (induction es arbitrary: t)
  case Nil
  then show ?case by simp
next
  case (Cons en es)
  from Cons.IH [OF apply_entry_matches [OF Cons.prems]] show ?case by simp
qed

text \<open>
  C5. The parameter type is a closed sum over four variants (a bundle is one of the
  four, and its index is 0, 1, 2 or 3). In every topology that the entries of the
  request queue lead to from the fresh one, for every node with a pending request: a
  join request carries exactly a token count, a rebuild request exactly a source
  datacenter, a remove request exactly a set of ignored node ids, and a replace request
  exactly the replaced node's id and a set of ignored node ids.
\<close>

theorem request_param_matches_kind:
  "(requests (apply_entries es topology_init) n = Some k \<longrightarrow>
      (k = join \<longrightarrow>
         (\<exists>c. req_param (apply_entries es topology_init) n
                = Some (Join_param \<lparr> num_tokens = c \<rparr>)))
      \<and> (k = rebuild \<longrightarrow>
         (\<exists>dc. req_param (apply_entries es topology_init) n
                = Some (Rebuild_param \<lparr> source_dc = dc \<rparr>)))
      \<and> (k = remove \<longrightarrow>
         (\<exists>ids. req_param (apply_entries es topology_init) n
                = Some (Removenode_param \<lparr> removenode_param.ignored_ids = ids \<rparr>)))
      \<and> (k = replace \<longrightarrow>
         (\<exists>r ids. req_param (apply_entries es topology_init) n
                = Some (Replace_param \<lparr> replaced_id = r, replace_param.ignored_ids = ids \<rparr>))))
   \<and> ((\<exists>x. p = Join_param x) \<or> (\<exists>x. p = Rebuild_param x)
        \<or> (\<exists>x. p = Removenode_param x) \<or> (\<exists>x. p = Replace_param x))
   \<and> request_param_index p < 4
   \<and> map request_param_index
         [Join_param a, Rebuild_param b, Removenode_param c, Replace_param d] = [0, 1, 2, 3]"
proof -
  let ?t = "apply_entries es topology_init"
  have i: "request_param_index p < 4" by (cases p) simp_all
  have s: "(\<exists>x. p = Join_param x) \<or> (\<exists>x. p = Rebuild_param x)
        \<or> (\<exists>x. p = Removenode_param x) \<or> (\<exists>x. p = Replace_param x)"
    by (cases p) simp_all
  have "\<forall>n k. requests topology_init n = Some k \<longrightarrow>
             k = leave \<or> (\<exists>p. req_param topology_init n = Some p \<and> request_param_kind p = k)"
    by (simp add: topology_init_def)
  from apply_entries_matches [OF this, of es]
  have m: "requests ?t n = Some k \<Longrightarrow>
             k = leave \<or> (\<exists>q. req_param ?t n = Some q \<and> request_param_kind q = k)"
    by blast
  have q: "(k = join \<longrightarrow> (\<exists>c. req_param ?t n = Some (Join_param \<lparr> num_tokens = c \<rparr>)))
      \<and> (k = rebuild \<longrightarrow> (\<exists>dc. req_param ?t n = Some (Rebuild_param \<lparr> source_dc = dc \<rparr>)))
      \<and> (k = remove \<longrightarrow>
         (\<exists>ids. req_param ?t n = Some (Removenode_param \<lparr> removenode_param.ignored_ids = ids \<rparr>)))
      \<and> (k = replace \<longrightarrow>
         (\<exists>r ids. req_param ?t n
                = Some (Replace_param \<lparr> replaced_id = r, replace_param.ignored_ids = ids \<rparr>)))"
    if r: "requests ?t n = Some k"
  proof (cases "k = leave")
    case True
    then show ?thesis by simp
  next
    case False
    with m [OF r] obtain q where q: "req_param ?t n = Some q" "request_param_kind q = k"
      by blast
    from request_param_shape [of q] q show ?thesis by auto
  qed
  from q i s show ?thesis by simp
qed

text \<open>
  Requests for three nodes, the promotion of the first, and the rollback of the removal
  of the third, followed by a leave request for it: the replace request of node 2 is
  pending with its parameters at the end, and a join request has its token count as
  soon as it is queued.
\<close>

theorem request_param_matches_kind_witness:
  "requests (apply_entries
       [Set_request 1 (Join_request \<lparr> num_tokens = 16 \<rparr>),
        Set_request 2 (Replace_request \<lparr> replaced_id = 3, replace_param.ignored_ids = {3} \<rparr>),
        Set_request 4 (Remove_request \<lparr> removenode_param.ignored_ids = {} \<rparr>),
        Node_promoted 1,
        Node_rolled_back 4,
        Set_request 4 Leave_request] topology_init) 2 = Some replace
   \<and> (\<exists>r ids. req_param (apply_entries
       [Set_request 1 (Join_request \<lparr> num_tokens = 16 \<rparr>),
        Set_request 2 (Replace_request \<lparr> replaced_id = 3, replace_param.ignored_ids = {3} \<rparr>),
        Set_request 4 (Remove_request \<lparr> removenode_param.ignored_ids = {} \<rparr>),
        Node_promoted 1,
        Node_rolled_back 4,
        Set_request 4 Leave_request] topology_init) 2
       = Some (Replace_param \<lparr> replaced_id = r, replace_param.ignored_ids = ids \<rparr>))
   \<and> requests (apply_entries
       [Set_request 1 (Join_request \<lparr> num_tokens = 16 \<rparr>)] topology_init) 1 = Some join
   \<and> req_param (apply_entries
       [Set_request 1 (Join_request \<lparr> num_tokens = 16 \<rparr>)] topology_init) 1
       = Some (Join_param \<lparr> num_tokens = 16 \<rparr>)"
proof -
  let ?es = "[Set_request 1 (Join_request \<lparr> num_tokens = 16 \<rparr>),
        Set_request 2 (Replace_request \<lparr> replaced_id = 3, replace_param.ignored_ids = {3} \<rparr>),
        Set_request 4 (Remove_request \<lparr> removenode_param.ignored_ids = {} \<rparr>),
        Node_promoted 1,
        Node_rolled_back 4,
        Set_request 4 Leave_request]"
  have h: "requests (apply_entries ?es topology_init) 2 = Some replace"
    by (simp add: apply_entries_def)
  from request_param_matches_kind [of ?es 2 replace, THEN conjunct1, rule_format, OF h]
  have a: "\<exists>r ids. req_param (apply_entries ?es topology_init) 2
       = Some (Replace_param \<lparr> replaced_id = r, replace_param.ignored_ids = ids \<rparr>)"
    by simp
  have b: "requests (apply_entries
       [Set_request 1 (Join_request \<lparr> num_tokens = 16 \<rparr>)] topology_init) 1 = Some join"
    "req_param (apply_entries
       [Set_request 1 (Join_request \<lparr> num_tokens = 16 \<rparr>)] topology_init) 1
       = Some (Join_param \<lparr> num_tokens = 16 \<rparr>)"
    by (simp_all add: apply_entries_def)
  from h a b show ?thesis by simp
qed

subsection \<open>Default-constructed values\<close>

text \<open>
  C8. A freshly constructed topology has version and fence version both equal to the
  initial version 1, so the fence version is not above the version; it has no
  transition state, its four node collections and its two request maps are empty, it
  has no global request, and tablet balancing is enabled.
\<close>

theorem topology_init_fresh:
  "version topology_init = initial_version
   \<and> fence_version topology_init = initial_version
   \<and> version_value initial_version = 1
   \<and> version_value (fence_version topology_init) \<le> version_value (version topology_init)
   \<and> tstate topology_init = None
   \<and> normal_nodes topology_init = Map.empty
   \<and> left_nodes topology_init = {}
   \<and> new_nodes topology_init = Map.empty
   \<and> transition_nodes topology_init = Map.empty
   \<and> requests topology_init = Map.empty
   \<and> req_param topology_init = Map.empty
   \<and> global_request topology_init = None
   \<and> tablet_balancing_enabled topology_init"
  by (simp add: topology_init_def initial_version_def version_value_def)

text \<open>
  C9. The commands the coordinator sends to a node are \<open>barrier\<close>,
  \<open>barrier_and_drain\<close>, \<open>stream_ranges\<close> and \<open>wait_for_ip\<close>. The status of their
  result is either \<open>fail\<close> or \<open>success\<close> and nothing else, and the status of a
  default-constructed result is \<open>fail\<close>: a result is a success only when its status
  was set.
\<close>

theorem raft_topology_cmd_result_default_fail:
  "status raft_topology_cmd_result_init = fail
   \<and> status raft_topology_cmd_result_init \<noteq> success
   \<and> (UNIV :: command_status set) = {fail, success}
   \<and> status r \<in> {fail, success}
   \<and> map command_status_value [fail, success] = [0, 1]
   \<and> cmd c \<in> {barrier, barrier_and_drain, stream_ranges, wait_for_ip}"
proof -
  have u: "\<And>x :: command_status. x \<in> {fail, success}"
    subgoal for x by (cases x) simp_all
    done
  then have e: "(UNIV :: command_status set) = {fail, success}" by blast
  have c: "cmd c \<in> {barrier, barrier_and_drain, stream_ranges, wait_for_ip}"
    by (cases "cmd c") simp_all
  from u [of "status r"] e c show ?thesis by (simp add: raft_topology_cmd_result_init_def)
qed

section \<open>Properties of the controller\<close>

subsection \<open>Frames and traces of the operations\<close>

lemma emit_simps [simp]:
  "ctl (emit ev s) = ctl s" "wld (emit ev s) = wld s" "trace (emit ev s) = trace s @ [ev]"
  "sem_seen (emit ev s) = sem_seen s @ [ops_sem (ctl s)]"
  by (simp_all add: emit_def)

lemma push_listen_address_simps [simp]:
  "wld (push_listen_address a s) = wld s"
  "trace (push_listen_address a s) = trace s"
  "sem_seen (push_listen_address a s) = sem_seen s"
  "ops_sem (ctl (push_listen_address a s)) = ops_sem (ctl s)"
  "server (ctl (push_listen_address a s)) = server (ctl s)"
  "config (ctl (push_listen_address a s)) = config (ctl s)"
  "used_by_maintenance_socket (ctl (push_listen_address a s)) = used_by_maintenance_socket (ctl s)"
  by (simp_all add: push_listen_address_def)

lemma push_listen_addresses_simps [simp]:
  "wld (push_listen_addresses as s) = wld s"
  "trace (push_listen_addresses as s) = trace s"
  "sem_seen (push_listen_addresses as s) = sem_seen s"
  "ops_sem (ctl (push_listen_addresses as s)) = ops_sem (ctl s)"
  "server (ctl (push_listen_addresses as s)) = server (ctl s)"
  "config (ctl (push_listen_addresses as s)) = config (ctl s)"
  "used_by_maintenance_socket (ctl (push_listen_addresses as s)) = used_by_maintenance_socket (ctl s)"
  unfolding push_listen_addresses_def by (induction as arbitrary: s; simp)+

lemma call_simps [simp]:
  "call ef None s = (Inr (), emit (Done ef) s)"
  "call ef (Some err) s = (Inl err, emit (Failed ef) s)"
  by (simp_all add: call_def)

lemma listen_all_frame:
  "ctl (snd (listen_all e cs s)) = ctl s" "wld (snd (listen_all e cs s)) = wld s"
  by (induction cs arbitrary: s; simp split: option.splits)+

lemma listen_all_trace:
  "trace (snd (listen_all e cs s)) =
     trace s @ map (\<lambda>c. case listen_fails e c of None \<Rightarrow> Done (Listen c)
                                               | Some err \<Rightarrow> Failed (Listen c)) cs"
  by (induction cs arbitrary: s) (simp_all split: option.splits)

lemma listen_all_sem_seen:
  "sem_seen (snd (listen_all e cs s)) = sem_seen s @ replicate (length cs) (ops_sem (ctl s))"
  by (induction cs arbitrary: s) (simp_all split: option.splits)

lemma listen_all_None:
  "fst (listen_all e cs s) = None \<longleftrightarrow> (\<forall>c \<in> set cs. listen_fails e c = None)"
  by (induction cs arbitrary: s) (simp_all split: option.splits)

lemma set_cql_ready_frame [simp]:
  "ctl (snd (set_cql_ready e b s)) = ctl s"
  by (simp add: set_cql_ready_def split: option.splits)

lemma do_stop_server_ops_sem: "ops_sem (ctl (snd (do_stop_server e s))) = ops_sem (ctl s)"
  by (simp add: do_stop_server_def set_cql_ready_def call_def Let_def
      split: option.splits sum.splits prod.splits)

lemma run_of_refl [simp]: "run_of s s []"
  by (simp add: run_of_def)

lemma run_of_trans: "run_of s s1 tr1 \<Longrightarrow> run_of s1 s2 tr2 \<Longrightarrow> run_of s s2 (tr1 @ tr2)"
  by (simp add: run_of_def replicate_add)

lemma run_of_emit [simp]: "run_of s (emit ev s) [ev]"
  by (simp add: run_of_def)

lemma events_before_append_none:
  "\<forall>ev \<in> set xs. \<not> P ev \<Longrightarrow> events_before P (xs @ ys) = xs @ events_before P ys"
  by (simp add: events_before_def takeWhile_append2)

lemma events_before_hit: "P ev \<Longrightarrow> events_before P (ev # ys) = []"
  by (simp add: events_before_def)


lemma sys_stat_cases:
  obtains (fault) n where "sys_stat e w path = Inl n" "n \<noteq> ENOENT"
  | (absent) "sys_stat e w path = Inl ENOENT"
  | (found) t where "sys_stat e w path = Inr t"
  by (cases "sys_stat e w path") auto

lemma sys_unlink_cases:
  obtains (fault) n where "n \<noteq> ENOENT" "sys_unlink e w path = (Inl n, w)"
  | (gone) "sys_unlink e w path = (Inl ENOENT, w\<lparr> files := (files w)(path := None) \<rparr>)"
  | (removed) "sys_unlink e w path = (Inr (), w\<lparr> files := (files w)(path := None) \<rparr>)"
proof (cases "unlink_fault e path")
  case (Some n)
  then show ?thesis
    by (cases "n = ENOENT") (auto simp: sys_unlink_def intro: fault gone)
next
  case None
  show ?thesis
  proof (cases "files w path")
    case fn: None
    then have "(files w)(path := None) = files w" by (simp add: fun_upd_idem)
    then have "w\<lparr> files := (files w)(path := None) \<rparr> = w" by simp
    with None fn gone show ?thesis by (simp add: sys_unlink_def)
  next
    case (Some t)
    with None removed show ?thesis by (simp add: sys_unlink_def)
  qed
qed

lemma unlink_socket_run:
  assumes "unlink_socket e path s = (r, s')"
  shows "\<exists>ev. run_of s s' [ev] \<and> server (ctl s') = server (ctl s)
     \<and> cql_ready (wld s') = cql_ready (wld s)
     \<and> effect_of ev = Unlink path
     \<and> (ev = Done (Unlink path) \<longleftrightarrow> fst (sys_unlink e (wld s) path) = Inr ())
     \<and> (case r of
           Inl err \<Rightarrow> (\<exists>n. fst (sys_unlink e (wld s) path) = Inl n \<and> n \<noteq> ENOENT)
         | Inr cfgs \<Rightarrow> cfgs = [maintenance_cfg path]
             \<and> (fst (sys_unlink e (wld s) path) = Inr ()
                  \<or> fst (sys_unlink e (wld s) path) = Inl ENOENT)
             \<and> files (wld s') path = None)"
proof (cases rule: sys_unlink_cases [of e "wld s" path])
  case (fault n)
  with assms have "r = Inl (Runtime_error (''Failed to unlink '' @ path @ '': '' @ strerror e n))"
    "s' = emit (Failed (Unlink path)) (s\<lparr> wld := wld s \<rparr>)"
    by (simp_all add: unlink_socket_def)
  with fault show ?thesis
    by (intro exI [of _ "Failed (Unlink path)"]) (simp add: run_of_def)
next
  case gone
  with assms have "r = Inr [maintenance_cfg path]"
    "s' = push_listen_address (Unix_domain_addr path)
            (emit (Failed (Unlink path))
               (s\<lparr> wld := (wld s)\<lparr> files := (files (wld s))(path := None) \<rparr> \<rparr>))"
    by (simp_all add: unlink_socket_def)
  with gone show ?thesis
    by (intro exI [of _ "Failed (Unlink path)"]) (simp add: run_of_def)
next
  case removed
  with assms have "r = Inr [maintenance_cfg path]"
    "s' = push_listen_address (Unix_domain_addr path)
            (emit (Done (Unlink path))
               (s\<lparr> wld := (wld s)\<lparr> files := (files (wld s))(path := None) \<rparr> \<rparr>))"
    by (simp_all add: unlink_socket_def)
  with removed show ?thesis
    by (intro exI [of _ "Done (Unlink path)"]) (simp add: run_of_def)
qed

lemma maintenance_configs_run:
  assumes m: "maintenance_configs e s = (r, s')"
    and p: "path = maintenance_socket_path (config (ctl s))"
  shows "\<exists>tr. run_of s s' tr \<and> server (ctl s') = server (ctl s)
     \<and> cql_ready (wld s') = cql_ready (wld s)
     \<and> (\<forall>ev \<in> set tr. \<not> serving_effect (effect_of ev))
     \<and> (case r of
           Inl err \<Rightarrow> socket_check_fails e (wld s) path
         | Inr cfgs \<Rightarrow> cfgs = [maintenance_cfg path]
             \<and> \<not> socket_check_fails e (wld s) path
             \<and> files (wld s') path = None
             \<and> (\<exists>sev uev. tr = [sev, uev] \<and> effect_of sev = Stat path
                   \<and> effect_of uev = Unlink path
                   \<and> (uev = Done (Unlink path) \<longleftrightarrow> fst (sys_unlink e (wld s) path) = Inr ())))"
proof (cases "107 < length path")
  case True
  with m p have "s' = s" "\<exists>err. r = Inl err"
    by (auto simp: maintenance_configs_def Let_def)
  with True show ?thesis by (intro exI [of _ "[]"]) (auto simp: socket_check_fails_def)
next
  case short: False
  have unl: ?thesis
    if u: "unlink_socket e path (emit sev s) = (r, s')"
      and sev: "effect_of sev = Stat path"
      and f: "sys_stat e (wld s) path = Inr Socket_file \<or> sys_stat e (wld s) path = Inl ENOENT"
    for sev
  proof -
    have w: "wld (emit sev s) = wld s" "ctl (emit sev s) = ctl s" by simp_all
    from unlink_socket_run [OF u, unfolded w] obtain uev where
      t: "run_of (emit sev s) s' [uev]" "server (ctl s') = server (ctl s)"
         "cql_ready (wld s') = cql_ready (wld s)"
         "effect_of uev = Unlink path"
         "uev = Done (Unlink path) \<longleftrightarrow> fst (sys_unlink e (wld s) path) = Inr ()"
         "case r of
            Inl err \<Rightarrow> (\<exists>n. fst (sys_unlink e (wld s) path) = Inl n \<and> n \<noteq> ENOENT)
          | Inr cfgs \<Rightarrow> cfgs = [maintenance_cfg path]
              \<and> (fst (sys_unlink e (wld s) path) = Inr ()
                   \<or> fst (sys_unlink e (wld s) path) = Inl ENOENT)
              \<and> files (wld s') path = None"
      by auto
    have r: "run_of s s' [sev, uev]"
      using run_of_trans [OF run_of_emit t(1)] by simp
    have ns: "\<forall>x \<in> set [sev, uev]. \<not> serving_effect (effect_of x)"
      using t(4) sev by simp
    show ?thesis
    proof (cases r)
      case (Inl err)
      with t(6) have "socket_check_fails e (wld s) path"
        by (auto simp: socket_check_fails_def)
      with Inl r ns t(2,3) show ?thesis by (intro exI [of _ "[sev, uev]"]) simp
    next
      case (Inr cfgs)
      with t(6) have c: "cfgs = [maintenance_cfg path]" "files (wld s') path = None"
        and ok: "fst (sys_unlink e (wld s) path) = Inr ()
                   \<or> fst (sys_unlink e (wld s) path) = Inl ENOENT"
        by auto
      have nf: "\<not> socket_check_fails e (wld s) path"
        using short f ok by (auto simp: socket_check_fails_def)
      have ex: "\<exists>a b. [sev, uev] = [a, b] \<and> effect_of a = Stat path \<and> effect_of b = Unlink path
                   \<and> (b = Done (Unlink path) \<longleftrightarrow> fst (sys_unlink e (wld s) path) = Inr ())"
        using sev t(4,5) by (intro exI [of _ sev] exI [of _ uev]) simp
      from Inr r ns t(2,3) c nf ex show ?thesis
        by (intro exI [of _ "[sev, uev]"]) simp
    qed
  qed
  show ?thesis
  proof (cases rule: sys_stat_cases [of e "wld s" path])
    case (fault n)
    with m p short have "s' = emit (Failed (Stat path)) s" "\<exists>err. r = Inl err"
      by (auto simp: maintenance_configs_def Let_def)
    with fault show ?thesis
      by (intro exI [of _ "[Failed (Stat path)]"]) (auto simp: socket_check_fails_def)
  next
    case absent
    with m p short have "unlink_socket e path (emit (Failed (Stat path)) s) = (r, s')"
      by (simp add: maintenance_configs_def Let_def)
    from unl [OF this] absent show ?thesis by simp
  next
    case (found t)
    show ?thesis
    proof (cases t)
      case Socket_file
      with found m p short have "unlink_socket e path (emit (Done (Stat path)) s) = (r, s')"
        by (simp add: maintenance_configs_def Let_def)
      from unl [OF this] found Socket_file show ?thesis by simp
    next
      case Other_file
      with found m p short have "s' = emit (Done (Stat path)) s" "\<exists>err. r = Inl err"
        by (auto simp: maintenance_configs_def Let_def)
      with found Other_file show ?thesis
        by (intro exI [of _ "[Done (Stat path)]"]) (auto simp: socket_check_fails_def)
    qed
  qed
qed

lemma resolve_effect_not_serving [simp]: "\<not> serving_effect (resolve_effect cfg)"
  by (simp add: resolve_effect_def)

lemma inet_configs_run:
  assumes i: "inet_configs e s = (r, s')"
    and n: "\<not> used_by_maintenance_socket (ctl s)"
  shows "\<exists>tr. run_of s s' tr \<and> server (ctl s') = server (ctl s) \<and> wld s' = wld s
     \<and> (\<forall>ev \<in> set tr. \<not> serving_effect (effect_of ev))
     \<and> (\<forall>cfgs. r = Inr cfgs \<longrightarrow> cfgs = configured_listeners e (ctl s))"
proof (cases "resolve e (config (ctl s))")
  case (Inl err)
  with i have "s' = emit (Failed (resolve_effect (config (ctl s)))) s" "r = Inl err"
    by (auto simp: inet_configs_def Let_def)
  then show ?thesis
    by (intro exI [of _ "[Failed (resolve_effect (config (ctl s)))]"]) simp
next
  case (Inr ip)
  define s1 where "s1 = push_listen_addresses (map addr (fst (plain_configs ip (config (ctl s)))))
                          (emit (Done (resolve_effect (config (ctl s)))) s)"
  have r1: "run_of s s1 [Done (resolve_effect (config (ctl s)))]"
    "server (ctl s1) = server (ctl s)" "wld s1 = wld s"
    by (simp_all add: s1_def run_of_def)
  show ?thesis
  proof (cases "client_encryption_enabled (config (ctl s))")
    case False
    with i Inr have "s' = s1" "r = Inr (fst (plain_configs ip (config (ctl s))))"
      by (auto simp: inet_configs_def Let_def s1_def)
    moreover have "configured_listeners e (ctl s) = fst (plain_configs ip (config (ctl s)))"
      using n Inr False by (simp add: configured_listeners_def)
    ultimately show ?thesis using r1
      by (intro exI [of _ "[Done (resolve_effect (config (ctl s)))]"]) simp
  next
    case True
    show ?thesis
    proof (cases "tls_fails e")
      case (Some err)
      with i Inr True have "s' = emit (Failed Configure_tls) s1" "r = Inl err"
        by (auto simp: inet_configs_def Let_def s1_def)
      with r1 show ?thesis
        by (intro exI [of _ "[Done (resolve_effect (config (ctl s))), Failed Configure_tls]"])
           (simp add: run_of_def)
    next
      case None
      define cfgs where
        "cfgs = tls_configs ip (config (ctl s)) Credentials_builder (plain_configs ip (config (ctl s)))"
      from i Inr True None have
        "s' = push_listen_addresses
                (map addr (drop (length (fst (plain_configs ip (config (ctl s))))) cfgs))
                (emit (Done Configure_tls) s1)"
        "r = Inr cfgs"
        by (auto simp: inet_configs_def Let_def s1_def cfgs_def)
      moreover have "configured_listeners e (ctl s) = cfgs"
        using n Inr True by (simp add: configured_listeners_def cfgs_def)
      ultimately show ?thesis using r1
        by (intro exI [of _ "[Done (resolve_effect (config (ctl s))), Done Configure_tls]"])
           (simp add: run_of_def)
    qed
  qed
qed

lemma on_error_run:
  assumes "on_error e err s = (r, s')"
  shows "\<exists>tr. run_of s s' tr \<and> server (ctl s') = server (ctl s) \<and> wld s' = wld s
     \<and> set tr \<subseteq> {Done Server_stop, Failed Server_stop} \<and> r \<noteq> Inr ()"
proof (cases "server_stop_fails e")
  case None
  with assms have "s' = emit (Done Server_stop) s" "r = Inl err"
    by (simp_all add: on_error_def)
  then show ?thesis by (intro exI [of _ "[Done Server_stop]"]) simp
next
  case (Some x)
  with assms have "s' = emit (Failed Server_stop) s" "r = Inl Terminated"
    by (simp_all add: on_error_def)
  then show ?thesis by (intro exI [of _ "[Failed Server_stop]"]) simp
qed

lemma on_error_unsub_run:
  assumes "on_error_unsub e err s = (r, s')"
  shows "\<exists>tr. run_of s s' tr \<and> server (ctl s') = server (ctl s) \<and> wld s' = wld s
     \<and> set tr \<subseteq> {Done Unsubscribe, Failed Unsubscribe, Done Server_stop, Failed Server_stop}
     \<and> r \<noteq> Inr ()"
proof (cases "unsubscribe_fails e")
  case (Some x)
  with assms have "s' = emit (Failed Unsubscribe) s" "r = Inl Terminated"
    by (simp_all add: on_error_unsub_def)
  then show ?thesis by (intro exI [of _ "[Failed Unsubscribe]"]) simp
next
  case None
  with assms have "on_error e err (emit (Done Unsubscribe) s) = (r, s')"
    by (simp add: on_error_unsub_def)
  from on_error_run [OF this] obtain tr where
    t: "run_of (emit (Done Unsubscribe) s) s' tr" "server (ctl s') = server (ctl s)"
       "wld s' = wld s" "set tr \<subseteq> {Done Server_stop, Failed Server_stop}" "r \<noteq> Inr ()"
    by auto
  have "run_of s s' (Done Unsubscribe # tr)"
    using run_of_trans [OF run_of_emit t(1)] by simp
  with t show ?thesis by (intro exI [of _ "Done Unsubscribe # tr"]) auto
qed

lemma listen_events_ok:
  "\<forall>c \<in> set cs. listen_fails e c = None \<Longrightarrow> listen_events e cs = map (\<lambda>c. Done (Listen c)) cs"
  by (simp add: listen_events_def)

lemma listen_events_not_ready: "ev \<in> set (listen_events e cs) \<Longrightarrow> \<not> sets_cql_ready b ev"
  by (auto simp: listen_events_def sets_cql_ready_def split: option.splits)

lemma listen_all_run:
  assumes "listen_all e cs s = (r, s')"
  shows "run_of s s' (listen_events e cs)" "wld s' = wld s" "server (ctl s') = server (ctl s)"
    "r = None \<longleftrightarrow> (\<forall>c \<in> set cs. listen_fails e c = None)"
proof -
  from assms have s': "s' = snd (listen_all e cs s)" and r: "r = fst (listen_all e cs s)"
    by simp_all
  show "run_of s s' (listen_events e cs)"
    by (simp add: s' run_of_def listen_all_trace listen_all_frame listen_all_sem_seen
        listen_events_def)
  show "wld s' = wld s" "server (ctl s') = server (ctl s)"
    by (simp_all add: s' listen_all_frame)
  show "r = None \<longleftrightarrow> (\<forall>c \<in> set cs. listen_fails e c = None)"
    by (simp add: r listen_all_None)
qed

lemma rollback_not_ready: "ev \<in> rollback_events \<Longrightarrow> \<not> sets_cql_ready b ev"
  by (auto simp: rollback_events_def sets_cql_ready_def)

lemma start_listeners_run:
  assumes st: "start_listeners e cfgs s = (r, s')"
  shows "\<exists>tr. run_of s s' tr
     \<and> files (wld s') = files (wld s)
     \<and> server (ctl s') = (if r = Inr () then Some Cql_server else server (ctl s))
     \<and> cql_ready (wld s') = (if r = Inr () then Some True else cql_ready (wld s))
     \<and> (r = Inr () \<longleftrightarrow> Done (Set_cql_ready True) \<in> set tr)
     \<and> ((\<exists>ev \<in> set tr. sets_cql_ready True ev) \<longrightarrow>
          (\<forall>c \<in> set cfgs. Done (Listen c) \<in> set (events_before (sets_cql_ready True) tr))
          \<and> (\<forall>c. Failed (Listen c) \<notin> set tr))
     \<and> (\<forall>ev \<in> set tr. serving_effect (effect_of ev))
     \<and> (Done Server_start \<in> set tr \<or> Failed Server_start \<in> set tr)"
proof (cases "server_start_fails e")
  case (Some err)
  with st have "s' = emit (Failed Server_start) s" "r = Inl err"
    by (simp_all add: start_listeners_def)
  then show ?thesis
    by (intro exI [of _ "[Failed Server_start]"]) (simp add: sets_cql_ready_def)
next
  case started: None
  define s1 where "s1 = emit (Done Server_start) s"
  show ?thesis
  proof (cases "subscribe_fails e")
    case (Some err)
    with st started have "on_error e err (emit (Failed Subscribe) s1) = (r, s')"
      by (simp add: start_listeners_def s1_def)
    from on_error_run [OF this] obtain tr where
      t: "run_of (emit (Failed Subscribe) s1) s' tr" "server (ctl s') = server (ctl s)"
         "wld s' = wld s" "set tr \<subseteq> {Done Server_stop, Failed Server_stop}" "r \<noteq> Inr ()"
      by (auto simp: s1_def)
    have "run_of s s' ([Done Server_start, Failed Subscribe] @ tr)"
      using t(1) by (simp add: run_of_def s1_def)
    moreover have "\<forall>ev \<in> set ([Done Server_start, Failed Subscribe] @ tr). \<not> sets_cql_ready True ev"
      using t(4) by (auto simp: sets_cql_ready_def)
    moreover have "Done (Set_cql_ready True) \<notin> set ([Done Server_start, Failed Subscribe] @ tr)"
      using t(4) by auto
    moreover have "\<forall>ev \<in> set ([Done Server_start, Failed Subscribe] @ tr). serving_effect (effect_of ev)"
      using t(4) by auto
    ultimately show ?thesis using t(2,3,5)
      by (intro exI [of _ "[Done Server_start, Failed Subscribe] @ tr"]) auto
  next
    case subscribed: None
    define s2 where "s2 = emit (Done Subscribe) s1"
    obtain lr s3 where la: "listen_all e cfgs s2 = (lr, s3)" by (cases "listen_all e cfgs s2")
    note l = listen_all_run [OF la]
    have r3: "run_of s s3 ([Done Server_start, Done Subscribe] @ listen_events e cfgs)"
      using l(1) by (simp add: run_of_def s1_def s2_def)
    have w3: "wld s3 = wld s" "server (ctl s3) = server (ctl s)"
      using l(2,3) by (simp_all add: s1_def s2_def)
    show ?thesis
    proof (cases lr)
      case (Some err)
      with st started subscribed la have "on_error_unsub e err s3 = (r, s')"
        by (simp add: start_listeners_def s1_def s2_def)
      from on_error_unsub_run [OF this] obtain tr where
        t: "run_of s3 s' tr" "server (ctl s') = server (ctl s3)" "wld s' = wld s3"
           "set tr \<subseteq> rollback_events" "r \<noteq> Inr ()"
        by (auto simp: rollback_events_def)
      let ?tr = "([Done Server_start, Done Subscribe] @ listen_events e cfgs) @ tr"
      have "run_of s s' ?tr" by (rule run_of_trans [OF r3 t(1)])
      moreover have nr: "\<forall>ev \<in> set ?tr. \<not> sets_cql_ready True ev"
        using t(4) rollback_not_ready listen_events_not_ready
        by (auto simp: sets_cql_ready_def)
      moreover have "Done (Set_cql_ready True) \<notin> set ?tr"
      proof
        assume "Done (Set_cql_ready True) \<in> set ?tr"
        with nr have "\<not> sets_cql_ready True (Done (Set_cql_ready True))" by blast
        then show False by (simp add: sets_cql_ready_def)
      qed
      moreover have "\<forall>ev \<in> set ?tr. serving_effect (effect_of ev)"
        using t(4) by (auto simp: rollback_events_def listen_events_def split: option.splits)
      moreover have "Done Server_start \<in> set ?tr" by simp
      ultimately show ?thesis using t(2,3,5) w3
        by (intro exI [of _ ?tr]) auto
    next
      case None
      with l(4) have ok: "\<forall>c \<in> set cfgs. listen_fails e c = None" by simp
      let ?pre = "[Done Server_start, Done Subscribe] @ map (\<lambda>c. Done (Listen c)) cfgs"
      have r3': "run_of s s3 ?pre" using r3 listen_events_ok [OF ok] by simp
      have pre_nr: "\<forall>ev \<in> set ?pre. \<not> sets_cql_ready True ev"
        by (auto simp: sets_cql_ready_def)
      have pre_nf: "\<forall>c. Failed (Listen c) \<notin> set ?pre" by auto
      have pre_all: "\<forall>c \<in> set cfgs. Done (Listen c) \<in> set ?pre" by auto
      show ?thesis
      proof (cases "gossip_fails e True")
        case (Some err)
        with st started subscribed la None
        have "on_error_unsub e err (emit (Failed (Set_cql_ready True)) s3) = (r, s')"
          by (simp add: start_listeners_def s1_def s2_def set_cql_ready_def)
        from on_error_unsub_run [OF this] obtain tr where
          t: "run_of (emit (Failed (Set_cql_ready True)) s3) s' tr"
             "server (ctl s') = server (ctl s3)" "wld s' = wld s3"
             "set tr \<subseteq> rollback_events" "r \<noteq> Inr ()"
          by (auto simp: rollback_events_def)
        let ?tr = "?pre @ Failed (Set_cql_ready True) # tr"
        have run: "run_of s s' ?tr"
          using run_of_trans [OF r3' run_of_trans [OF run_of_emit t(1)]] by simp
        have hit: "sets_cql_ready True (Failed (Set_cql_ready True))"
          by (simp add: sets_cql_ready_def)
        have eb: "events_before (sets_cql_ready True) ?tr = ?pre"
          by (simp only: events_before_append_none [OF pre_nr] events_before_hit [of "sets_cql_ready True", OF hit]
                append_Nil2)
        have nd: "Done (Set_cql_ready True) \<notin> set ?tr"
          using t(4) by (auto simp: rollback_events_def)
        have nf: "\<forall>c. Failed (Listen c) \<notin> set ?tr"
          using t(4) by (auto simp: rollback_events_def)
        have al: "\<forall>c \<in> set cfgs. Done (Listen c) \<in> set (events_before (sets_cql_ready True) ?tr)"
          unfolding eb using pre_all .
        have sv: "\<forall>ev \<in> set ?tr. serving_effect (effect_of ev)"
          using t(4) by (auto simp: rollback_events_def)
        have st: "Done Server_start \<in> set ?tr \<or> Failed Server_start \<in> set ?tr" by simp
        show ?thesis
          using run nd nf al t(2,3,5) w3 sv st by (intro exI [of _ ?tr]) simp
      next
        case gossip: None
        with st started subscribed la None
        have s': "s' = (emit (Done (Set_cql_ready True)) (s3\<lparr> wld := (wld s3)\<lparr> cql_ready := Some True \<rparr> \<rparr>))
                      \<lparr> ctl := (ctl s3)\<lparr> server := Some Cql_server \<rparr> \<rparr>"
          and r: "r = Inr ()"
          by (simp_all add: start_listeners_def s1_def s2_def set_cql_ready_def)
        let ?tr = "?pre @ [Done (Set_cql_ready True)]"
        have run: "run_of s s' ?tr"
          using r3' by (simp add: s' run_of_def replicate_append_same)
        have hit: "sets_cql_ready True (Done (Set_cql_ready True))"
          by (simp add: sets_cql_ready_def)
        have eb: "events_before (sets_cql_ready True) ?tr = ?pre"
          by (simp only: events_before_append_none [OF pre_nr] events_before_hit [of "sets_cql_ready True", OF hit]
                append_Nil2)
        have nf: "\<forall>c. Failed (Listen c) \<notin> set ?tr" by auto
        have al: "\<forall>c \<in> set cfgs. Done (Listen c) \<in> set (events_before (sets_cql_ready True) ?tr)"
          unfolding eb using pre_all .
        have w: "files (wld s') = files (wld s)" "cql_ready (wld s') = Some True"
          "server (ctl s') = Some Cql_server"
          using w3 by (simp_all add: s')
        have sv: "\<forall>ev \<in> set ?tr. serving_effect (effect_of ev)" by auto
        have st: "Done Server_start \<in> set ?tr \<or> Failed Server_start \<in> set ?tr" by simp
        show ?thesis
          using run nf al w r sv st by (intro exI [of _ ?tr]) simp
      qed
    qed
  qed
qed

lemma configured_listeners_cong:
  assumes "config c' = config c"
    and "used_by_maintenance_socket c' = used_by_maintenance_socket c"
  shows "configured_listeners e c' = configured_listeners e c"
  unfolding configured_listeners_def assms by (rule refl)

lemma do_start_server_cases:
  assumes d: "do_start_server e s = (r, s')"
  obtains
    (running) "server (ctl s) \<noteq> None" "r = Inr ()" "s' = s"
  | (config_failed) err A where "server (ctl s) = None" "r = Inl err" "run_of s s' A"
      "\<forall>ev \<in> set A. \<not> serving_effect (effect_of ev)" "server (ctl s') = None"
      "cql_ready (wld s') = cql_ready (wld s)"
      "used_by_maintenance_socket (ctl s) \<longrightarrow>
         smp_group_fails e \<noteq> None
         \<or> socket_check_fails e (wld s) (maintenance_socket_path (config (ctl s)))"
  | (configured) s3 A where "server (ctl s) = None" "run_of s s3 A"
      "\<forall>ev \<in> set A. \<not> serving_effect (effect_of ev)" "server (ctl s3) = None"
      "cql_ready (wld s3) = cql_ready (wld s)"
      "start_listeners e (configured_listeners e (ctl s)) s3 = (r, s')"
      "used_by_maintenance_socket (ctl s) \<longrightarrow>
         smp_group_fails e = None
         \<and> \<not> socket_check_fails e (wld s) (maintenance_socket_path (config (ctl s)))
         \<and> files (wld s3) (maintenance_socket_path (config (ctl s))) = None
         \<and> (\<exists>sev uev. A = [Done Create_smp_service_group, sev, uev]
               \<and> effect_of sev = Stat (maintenance_socket_path (config (ctl s)))
               \<and> effect_of uev = Unlink (maintenance_socket_path (config (ctl s)))
               \<and> (uev = Done (Unlink (maintenance_socket_path (config (ctl s)))) \<longleftrightarrow>
                    fst (sys_unlink e (wld s) (maintenance_socket_path (config (ctl s)))) = Inr ()))"
proof (cases "server (ctl s)")
  case (Some x)
  with d have "r = Inr ()" "s' = s" by (simp_all add: do_start_server_def)
  with Some running show ?thesis by simp
next
  case None
  show ?thesis
  proof (cases "smp_group_fails e")
    case (Some err)
    with d None have "r = Inl err" "s' = emit (Failed Create_smp_service_group) s"
      by (simp_all add: do_start_server_def)
    with None Some show ?thesis
      by (intro config_failed [of err "[Failed Create_smp_service_group]"]) simp_all
  next
    case smp: None
    define s1 where "s1 = (emit (Done Create_smp_service_group) s)
       \<lparr> ctl := (ctl (emit (Done Create_smp_service_group) s))\<lparr> listen_addresses := [] \<rparr> \<rparr>"
    have r1: "run_of s s1 [Done Create_smp_service_group]" "server (ctl s1) = None"
      "wld s1 = wld s" "config (ctl s1) = config (ctl s)"
      "used_by_maintenance_socket (ctl s1) = used_by_maintenance_socket (ctl s)"
      using None by (simp_all add: s1_def run_of_def)
    have cl: "configured_listeners e (ctl s1) = configured_listeners e (ctl s)"
      using r1 by (intro configured_listeners_cong) simp_all
    show ?thesis
    proof (cases "used_by_maintenance_socket (ctl s)")
      case False
      obtain cr s3 where i: "inet_configs e s1 = (cr, s3)" by (cases "inet_configs e s1")
      from False r1 have "\<not> used_by_maintenance_socket (ctl s1)" by simp
      from inet_configs_run [OF i this] obtain tr where
        t: "run_of s1 s3 tr" "server (ctl s3) = server (ctl s1)" "wld s3 = wld s1"
           "\<forall>ev \<in> set tr. \<not> serving_effect (effect_of ev)"
           "\<forall>cfgs. cr = Inr cfgs \<longrightarrow> cfgs = configured_listeners e (ctl s1)"
        by auto
      have run: "run_of s s3 (Done Create_smp_service_group # tr)"
        using run_of_trans [OF r1(1) t(1)] by simp
      have ns: "\<forall>ev \<in> set (Done Create_smp_service_group # tr). \<not> serving_effect (effect_of ev)"
        using t(4) by simp
      show ?thesis
      proof (cases cr)
        case (Inl err)
        with d None smp False i have "r = Inl err" "s' = s3"
          by (simp_all add: do_start_server_def s1_def)
        with run ns t(2,3) r1 None False show ?thesis
          by (intro config_failed [of err "Done Create_smp_service_group # tr"]) simp_all
      next
        case (Inr cfgs)
        with t(5) cl have c: "cfgs = configured_listeners e (ctl s)" by simp
        from d None smp False i Inr
        have "start_listeners e cfgs s3 = (r, s')"
          by (simp add: do_start_server_def s1_def)
        with c run ns t(2,3) r1 None False show ?thesis
          by (intro configured [of s3 "Done Create_smp_service_group # tr"]) simp_all
      qed
    next
      case True
      obtain cr s3 where m: "maintenance_configs e s1 = (cr, s3)"
        by (cases "maintenance_configs e s1")
      define path where "path = maintenance_socket_path (config (ctl s))"
      have p1: "path = maintenance_socket_path (config (ctl s1))"
        using r1 by (simp add: path_def)
      from maintenance_configs_run [OF m p1] obtain tr where
        t: "run_of s1 s3 tr" "server (ctl s3) = server (ctl s1)"
           "cql_ready (wld s3) = cql_ready (wld s1)"
           "\<forall>ev \<in> set tr. \<not> serving_effect (effect_of ev)"
           "case cr of
              Inl err \<Rightarrow> socket_check_fails e (wld s1) path
            | Inr cfgs \<Rightarrow> cfgs = [maintenance_cfg path]
                \<and> \<not> socket_check_fails e (wld s1) path
                \<and> files (wld s3) path = None
                \<and> (\<exists>sev uev. tr = [sev, uev] \<and> effect_of sev = Stat path
                      \<and> effect_of uev = Unlink path
                      \<and> (uev = Done (Unlink path) \<longleftrightarrow>
                           fst (sys_unlink e (wld s1) path) = Inr ()))"
        by auto
      have run: "run_of s s3 (Done Create_smp_service_group # tr)"
        using run_of_trans [OF r1(1) t(1)] by simp
      have ns: "\<forall>ev \<in> set (Done Create_smp_service_group # tr). \<not> serving_effect (effect_of ev)"
        using t(4) by simp
      show ?thesis
      proof (cases cr)
        case (Inl err)
        with d None smp True m have "r = Inl err" "s' = s3"
          by (simp_all add: do_start_server_def s1_def)
        moreover from Inl t(5) r1(3) have "socket_check_fails e (wld s) path" by simp
        ultimately show ?thesis using run ns t(2,3) r1 None
          by (intro config_failed [of err "Done Create_smp_service_group # tr"])
             (simp_all add: path_def)
      next
        case (Inr cfgs)
        with t(5) have f: "cfgs = [maintenance_cfg path]"
          "\<not> socket_check_fails e (wld s) path"
          "files (wld s3) path = None"
          using r1(3) by simp_all
        from Inr t(5) r1(3) obtain sev uev where
          g: "tr = [sev, uev]" "effect_of sev = Stat path" "effect_of uev = Unlink path"
             "uev = Done (Unlink path) \<longleftrightarrow> fst (sys_unlink e (wld s) path) = Inr ()"
          by auto
        have ex: "\<exists>a b. Done Create_smp_service_group # tr = [Done Create_smp_service_group, a, b]
               \<and> effect_of a = Stat path \<and> effect_of b = Unlink path
               \<and> (b = Done (Unlink path) \<longleftrightarrow> fst (sys_unlink e (wld s) path) = Inr ())"
          using g by (intro exI [of _ sev] exI [of _ uev]) simp
        have c: "cfgs = configured_listeners e (ctl s)"
          using True f(1) by (simp add: configured_listeners_def path_def)
        from d None smp True m Inr
        have "start_listeners e cfgs s3 = (r, s')"
          by (simp add: do_start_server_def s1_def)
        with c run ns t(2,3) r1 None f(2,3) ex smp show ?thesis
          by (intro configured [of s3 "Done Create_smp_service_group # tr"])
             (simp_all add: path_def)
      qed
    qed
  qed
qed

lemma finally_signal_frame:
  assumes "finally_signal (r, s1) = (r', s')"
  shows "r' = r" "trace s' = trace s1" "wld s' = wld s1" "server (ctl s') = server (ctl s1)"
    "sem_seen s' = sem_seen s1"
    "ops_sem (ctl s') = (if r = Inl Terminated then ops_sem (ctl s1) else signal (ops_sem (ctl s1)))"
  using assms by (auto simp: finally_signal_def split: sum.splits error.splits)

lemma do_start_server_ops_sem: "ops_sem (ctl (snd (do_start_server e s))) = ops_sem (ctl s)"
proof -
  obtain r s' where d: "do_start_server e s = (r, s')" by (cases "do_start_server e s")
  from d have "ops_sem (ctl s') = ops_sem (ctl s)"
  proof (cases rule: do_start_server_cases)
    case running
    then show ?thesis by simp
  next
    case (config_failed err A)
    then show ?thesis by (simp add: run_of_def)
  next
    case (configured s3 A)
    from start_listeners_run [OF configured(6)] obtain tr where "run_of s3 s' tr" by auto
    with configured(2) show ?thesis by (simp add: run_of_def)
  qed
  with d show ?thesis by simp
qed

lemma do_stop_server_trace:
  assumes "server (ctl s) = Some x"
  shows "trace (snd (do_stop_server e s)) =
     trace s @
       (case gossip_fails e False of None \<Rightarrow> Done (Set_cql_ready False)
                                   | Some err \<Rightarrow> Failed (Set_cql_ready False))
       # (case unsubscribe_fails e of
            Some err \<Rightarrow> [Failed Unsubscribe]
          | None \<Rightarrow> [Done Unsubscribe,
                      (case shutdown_fails e of None \<Rightarrow> Done Shutdown
                                               | Some err \<Rightarrow> Failed Shutdown)])
       @ [case server_stop_fails e of None \<Rightarrow> Done Server_stop
                                    | Some err \<Rightarrow> Failed Server_stop]"
  using assms
  by (cases "gossip_fails e False"; cases "unsubscribe_fails e"; cases "shutdown_fails e";
      cases "server_stop_fails e")
     (simp_all add: do_stop_server_def set_cql_ready_def Let_def)

lemma do_stop_server_world:
  assumes "server (ctl s) = Some x"
  shows "cql_ready (wld (snd (do_stop_server e s))) =
           (case gossip_fails e False of None \<Rightarrow> Some False | Some err \<Rightarrow> cql_ready (wld s))"
    and "server (ctl (snd (do_stop_server e s))) = None"
  using assms
  by (cases "gossip_fails e False"; cases "unsubscribe_fails e"; cases "shutdown_fails e";
      cases "server_stop_fails e";
      simp add: do_stop_server_def set_cql_ready_def Let_def)+

lemma do_stop_server_result:
  assumes "server (ctl s) = Some x"
  shows "fst (do_stop_server e s) =
           (case gossip_fails e False of
              Some err \<Rightarrow> Inl err
            | None \<Rightarrow>
                (case unsubscribe_fails e of
                   Some err \<Rightarrow> Inl err
                 | None \<Rightarrow> (case shutdown_fails e of Some err \<Rightarrow> Inl err | None \<Rightarrow> Inr ())))"
  using assms
  by (cases "gossip_fails e False"; cases "unsubscribe_fails e"; cases "shutdown_fails e";
      cases "server_stop_fails e")
     (simp_all add: do_stop_server_def set_cql_ready_def Let_def)

lemmas ctl_defs =
  start_server_def do_start_server_def start_listeners_def inet_configs_def
  maintenance_configs_def unlink_socket_def maintenance_socket_path_def maintenance_cfg_def
  plain_configs_def tls_configs_def set_cql_ready_def finally_signal_def
  try_wait_def signal_def sys_stat_def sys_unlink_def ENOENT_def push_listen_addresses_def
  push_listen_address_def emit_def call_def on_error_def on_error_unsub_def
  request_stop_server_def do_stop_server_def
  env_ok_def cfg_default_def sys_init_def controller_init_def sys_running_def
  configured_listeners_def resolve_def resolve_effect_def family_def preferred_def


lemma ready_is_serving: "sets_cql_ready b ev \<Longrightarrow> serving_effect (effect_of ev)"
  by (simp add: sets_cql_ready_def)

lemma do_start_server_ready:
  assumes d: "do_start_server e s = (r, s')"
  shows "\<exists>tr. trace s' = trace s @ tr
     \<and> ((\<exists>ev \<in> set tr. sets_cql_ready True ev) \<longrightarrow>
          (\<forall>c \<in> set (configured_listeners e (ctl s)).
             Done (Listen c) \<in> set (events_before (sets_cql_ready True) tr))
          \<and> (\<forall>c. Failed (Listen c) \<notin> set tr))
     \<and> (Done (Set_cql_ready True) \<in> set tr \<longleftrightarrow> server (ctl s) = None \<and> r = Inr ())"
  using d
proof (cases rule: do_start_server_cases)
  case running
  then show ?thesis by (intro exI [of _ "[]"]) simp
next
  case (config_failed err A)
  have "\<forall>ev \<in> set A. \<not> sets_cql_ready True ev"
    using config_failed(4) ready_is_serving by blast
  moreover have "Done (Set_cql_ready True) \<notin> set A"
    using config_failed(4) by force
  ultimately show ?thesis using config_failed(1,2,3)
    by (intro exI [of _ A]) (simp add: run_of_def)
next
  case (configured s3 A)
  from start_listeners_run [OF configured(6)] obtain B where
    b: "run_of s3 s' B"
       "r = Inr () \<longleftrightarrow> Done (Set_cql_ready True) \<in> set B"
       "(\<exists>ev \<in> set B. sets_cql_ready True ev) \<longrightarrow>
          (\<forall>c \<in> set (configured_listeners e (ctl s)).
             Done (Listen c) \<in> set (events_before (sets_cql_ready True) B))
          \<and> (\<forall>c. Failed (Listen c) \<notin> set B)"
    by auto
  have na: "\<forall>ev \<in> set A. \<not> sets_cql_ready True ev"
    using configured(3) ready_is_serving by blast
  have nd: "Done (Set_cql_ready True) \<notin> set A" "\<forall>c. Failed (Listen c) \<notin> set A"
    using configured(3) by force+
  have eb: "events_before (sets_cql_ready True) (A @ B) = A @ events_before (sets_cql_ready True) B"
    by (rule events_before_append_none [OF na])
  have run: "trace s' = trace s @ (A @ B)"
    using configured(2) b(1) by (simp add: run_of_def)
  have c1: "(\<exists>ev \<in> set (A @ B). sets_cql_ready True ev) \<longrightarrow>
          (\<forall>c \<in> set (configured_listeners e (ctl s)).
             Done (Listen c) \<in> set (events_before (sets_cql_ready True) (A @ B)))
          \<and> (\<forall>c. Failed (Listen c) \<notin> set (A @ B))"
    unfolding eb using b(3) na nd by auto
  have c2: "Done (Set_cql_ready True) \<in> set (A @ B) \<longleftrightarrow> server (ctl s) = None \<and> r = Inr ()"
    using b(2) nd(1) configured(1) by auto
  from run c1 c2 show ?thesis by (intro exI [of _ "A @ B"]) simp
qed


subsection \<open>The operations semaphore\<close>

lemma do_start_server_run: "\<exists>tr. run_of s (snd (do_start_server e s)) tr"
proof -
  obtain r s' where d: "do_start_server e s = (r, s')" by (cases "do_start_server e s")
  from d have "\<exists>tr. run_of s s' tr"
  proof (cases rule: do_start_server_cases)
    case running
    then show ?thesis by (intro exI [of _ "[]"]) simp
  next
    case (config_failed err A)
    then show ?thesis by blast
  next
    case (configured s3 A)
    from start_listeners_run [OF configured(6)] obtain B where "run_of s3 s' B" by auto
    from run_of_trans [OF configured(2) this] show ?thesis by blast
  qed
  with d show ?thesis by simp
qed

lemma do_stop_server_run: "\<exists>tr. run_of s (snd (do_stop_server e s)) tr"
proof (cases "server (ctl s)")
  case None
  then have "do_stop_server e s = (Inr (), s)" by (simp add: do_stop_server_def)
  then show ?thesis by (intro exI [of _ "[]"]) simp
next
  case (Some x)
  then show ?thesis
    by (cases "gossip_fails e False"; cases "unsubscribe_fails e"; cases "shutdown_fails e";
        cases "server_stop_fails e")
       (simp_all add: do_stop_server_def set_cql_ready_def Let_def run_of_def)
qed

lemma guarded_run:
  assumes one: "ops_sem (ctl s) = 1"
    and run: "\<exists>tr. run_of (s\<lparr> ctl := (ctl s)\<lparr> ops_sem := 0 \<rparr> \<rparr>)
                 (snd (body (s\<lparr> ctl := (ctl s)\<lparr> ops_sem := 0 \<rparr> \<rparr>))) tr"
    and op: "\<And>n. try_wait (ops_sem (ctl s)) = Some n \<Longrightarrow>
               guarded s = finally_signal (body (s\<lparr> ctl := (ctl s)\<lparr> ops_sem := n \<rparr> \<rparr>))"
  shows "(\<exists>tr. trace (snd (guarded s)) = trace s @ tr
            \<and> sem_seen (snd (guarded s)) = sem_seen s @ replicate (length tr) 0)
     \<and> (fst (guarded s) \<noteq> Inl Terminated \<longrightarrow> ops_sem (ctl (snd (guarded s))) = 1)
     \<and> ops_sem (ctl (snd (guarded s))) \<le> 1"
proof -
  let ?s0 = "s\<lparr> ctl := (ctl s)\<lparr> ops_sem := 0 \<rparr> \<rparr>"
  have tw: "try_wait (ops_sem (ctl s)) = Some 0" using one by (simp add: try_wait_def)
  obtain r s1 where b: "body ?s0 = (r, s1)" by (cases "body ?s0")
  with run obtain tr where tr: "run_of ?s0 s1 tr" by auto
  obtain r' s' where f: "finally_signal (r, s1) = (r', s')" by (cases "finally_signal (r, s1)")
  note ff = finally_signal_frame [OF f]
  have g: "guarded s = (r, s')" using op [OF tw] b f ff(1) by simp
  have "trace s' = trace s @ tr" "sem_seen s' = sem_seen s @ replicate (length tr) 0"
    using tr ff(2,5) by (simp_all add: run_of_def)
  moreover have "r \<noteq> Inl Terminated \<longrightarrow> ops_sem (ctl s') = 1" "ops_sem (ctl s') \<le> 1"
    using tr ff(6) by (simp_all add: run_of_def signal_def)
  ultimately show ?thesis unfolding g by auto
qed

text \<open>
  C6. The controller is constructed with one unit in its operations semaphore, and the
  semaphore never has more. A \<open>start_server\<close> or a \<open>request_stop_server\<close> that finds
  the unit takes it and holds it for as long as the operation is in progress: every
  external call of the operation, which is where it can be suspended and another request
  can arrive, is made while the semaphore has no unit; the unit is back when the
  operation is over (unless the process was terminated). A request that arrives while
  the semaphore has no unit fails fast: \<open>start_server\<close> throws its retry-later error
  and \<open>request_stop_server\<close> throws its retry-later error, and neither does anything
  else: the controller, the world and the trace are as before the call. (The
  \<open>stop_server\<close> of the shutdown, which waits for the unit and keeps it, is not
  embedded.)
\<close>

theorem ops_sem_fail_fast:
  "ops_sem (controller_init cfg maint) = 1
   \<and> (ops_sem (ctl s) = 1 \<longrightarrow>
        (\<exists>tr. trace (snd (start_server e s)) = trace s @ tr
            \<and> sem_seen (snd (start_server e s)) = sem_seen s @ replicate (length tr) 0)
        \<and> (fst (start_server e s) \<noteq> Inl Terminated \<longrightarrow>
             ops_sem (ctl (snd (start_server e s))) = 1)
        \<and> (\<exists>tr. trace (snd (request_stop_server e s)) = trace s @ tr
            \<and> sem_seen (snd (request_stop_server e s)) = sem_seen s @ replicate (length tr) 0)
        \<and> (fst (request_stop_server e s) \<noteq> Inl Terminated \<longrightarrow>
             ops_sem (ctl (snd (request_stop_server e s))) = 1))
   \<and> (ops_sem (ctl s) = 0 \<longrightarrow>
        start_server e s = (Inl (Runtime_error ''CQL server is stopping, try again later''), s)
        \<and> request_stop_server e s =
            (Inl (Runtime_error ''CQL server is starting, try again later''), s))
   \<and> (ops_sem (ctl s) \<le> 1 \<longrightarrow>
        ops_sem (ctl (snd (start_server e s))) \<le> 1
        \<and> ops_sem (ctl (snd (request_stop_server e s))) \<le> 1)"
proof -
  have i: "ops_sem (controller_init cfg maint) = 1" by (simp add: controller_init_def)
  have busy: "ops_sem (ctl s) = 0 \<longrightarrow>
        start_server e s = (Inl (Runtime_error ''CQL server is stopping, try again later''), s)
        \<and> request_stop_server e s =
            (Inl (Runtime_error ''CQL server is starting, try again later''), s)"
    by (simp add: start_server_def request_stop_server_def try_wait_def)
  have a: "(\<exists>tr. trace (snd (start_server e s)) = trace s @ tr
            \<and> sem_seen (snd (start_server e s)) = sem_seen s @ replicate (length tr) 0)
        \<and> (fst (start_server e s) \<noteq> Inl Terminated \<longrightarrow>
             ops_sem (ctl (snd (start_server e s))) = 1)
        \<and> ops_sem (ctl (snd (start_server e s))) \<le> 1"
    if one: "ops_sem (ctl s) = 1"
    by (rule guarded_run [where body = "do_start_server e", OF one do_start_server_run])
       (simp add: start_server_def)
  have b: "(\<exists>tr. trace (snd (request_stop_server e s)) = trace s @ tr
            \<and> sem_seen (snd (request_stop_server e s)) = sem_seen s @ replicate (length tr) 0)
        \<and> (fst (request_stop_server e s) \<noteq> Inl Terminated \<longrightarrow>
             ops_sem (ctl (snd (request_stop_server e s))) = 1)
        \<and> ops_sem (ctl (snd (request_stop_server e s))) \<le> 1"
    if one: "ops_sem (ctl s) = 1"
    by (rule guarded_run [where body = "do_stop_server e", OF one do_stop_server_run])
       (simp add: request_stop_server_def)
  have held: "ops_sem (ctl s) = 1 \<longrightarrow>
        (\<exists>tr. trace (snd (start_server e s)) = trace s @ tr
            \<and> sem_seen (snd (start_server e s)) = sem_seen s @ replicate (length tr) 0)
        \<and> (fst (start_server e s) \<noteq> Inl Terminated \<longrightarrow>
             ops_sem (ctl (snd (start_server e s))) = 1)
        \<and> (\<exists>tr. trace (snd (request_stop_server e s)) = trace s @ tr
            \<and> sem_seen (snd (request_stop_server e s)) = sem_seen s @ replicate (length tr) 0)
        \<and> (fst (request_stop_server e s) \<noteq> Inl Terminated \<longrightarrow>
             ops_sem (ctl (snd (request_stop_server e s))) = 1)"
    using a b by blast
  have bound: "ops_sem (ctl s) \<le> 1 \<longrightarrow>
        ops_sem (ctl (snd (start_server e s))) \<le> 1
        \<and> ops_sem (ctl (snd (request_stop_server e s))) \<le> 1"
  proof
    assume le: "ops_sem (ctl s) \<le> 1"
    show "ops_sem (ctl (snd (start_server e s))) \<le> 1
        \<and> ops_sem (ctl (snd (request_stop_server e s))) \<le> 1"
    proof (cases "ops_sem (ctl s) = 0")
      case True
      with busy show ?thesis by simp
    next
      case False
      with le have "ops_sem (ctl s) = 1" by simp
      with a b show ?thesis by blast
    qed
  qed
  from i held busy bound show ?thesis by blast
qed

text \<open>
  A start of a freshly constructed controller makes its seven calls while the
  semaphore has no unit, and gives the unit back; so does a stop of the server it
  started, with its four calls. The body of that start runs from the state of the
  fresh controller with its unit taken, and a stop requested in this state is refused;
  the body of that stop runs from the state of the running controller with its unit
  taken, and a start requested in this state is refused.
\<close>

theorem ops_sem_fail_fast_witness:
  "ops_sem (ctl (sys_init cfg_default False)) = 1
   \<and> start_server env_ok (sys_init cfg_default False)
       = finally_signal (do_start_server env_ok
           ((sys_init cfg_default False)\<lparr> ctl := (ctl (sys_init cfg_default False))\<lparr> ops_sem := 0 \<rparr> \<rparr>))
   \<and> sem_seen (snd (start_server env_ok (sys_init cfg_default False))) = [0, 0, 0, 0, 0, 0, 0]
   \<and> ops_sem (ctl (snd (start_server env_ok (sys_init cfg_default False)))) = 1
   \<and> request_stop_server env_ok
        ((sys_init cfg_default False)\<lparr> ctl := (ctl (sys_init cfg_default False))\<lparr> ops_sem := 0 \<rparr> \<rparr>)
       = (Inl (Runtime_error ''CQL server is starting, try again later''),
          (sys_init cfg_default False)\<lparr> ctl := (ctl (sys_init cfg_default False))\<lparr> ops_sem := 0 \<rparr> \<rparr>)
   \<and> ops_sem (ctl (sys_running False)) = 1
   \<and> request_stop_server env_ok (sys_running False)
       = finally_signal (do_stop_server env_ok
           ((sys_running False)\<lparr> ctl := (ctl (sys_running False))\<lparr> ops_sem := 0 \<rparr> \<rparr>))
   \<and> sem_seen (snd (request_stop_server env_ok (sys_running False)))
       = sem_seen (sys_running False) @ [0, 0, 0, 0]
   \<and> ops_sem (ctl (snd (request_stop_server env_ok (sys_running False)))) = 1
   \<and> start_server env_ok
        ((sys_running False)\<lparr> ctl := (ctl (sys_running False))\<lparr> ops_sem := 0 \<rparr> \<rparr>)
       = (Inl (Runtime_error ''CQL server is stopping, try again later''),
          (sys_running False)\<lparr> ctl := (ctl (sys_running False))\<lparr> ops_sem := 0 \<rparr> \<rparr>)"
proof -
  let ?i = "sys_init cfg_default False"
  let ?r = "sys_running False"
  have one: "ops_sem (ctl ?i) = 1" "ops_sem (ctl ?r) = 1" by code_simp+
  have body: "start_server env_ok ?i
       = finally_signal (do_start_server env_ok (?i\<lparr> ctl := (ctl ?i)\<lparr> ops_sem := 0 \<rparr> \<rparr>))"
    "request_stop_server env_ok ?r
       = finally_signal (do_stop_server env_ok (?r\<lparr> ctl := (ctl ?r)\<lparr> ops_sem := 0 \<rparr> \<rparr>))"
    using one by (simp_all add: start_server_def request_stop_server_def try_wait_def)
  have i0: "trace ?i = []" "sem_seen ?i = []" by (simp_all add: sys_init_def)
  have t1: "length (trace (snd (start_server env_ok ?i))) = 7"
    and r1: "fst (start_server env_ok ?i) \<noteq> Inl Terminated"
    by code_simp+
  have t2: "trace (snd (request_stop_server env_ok ?r)) =
              trace ?r @ [Done (Set_cql_ready False), Done Unsubscribe, Done Shutdown, Done Server_stop]"
    and r2: "fst (request_stop_server env_ok ?r) \<noteq> Inl Terminated"
    by code_simp+
  note h1 = ops_sem_fail_fast [of cfg_default False ?i env_ok, THEN conjunct2, THEN conjunct1,
      rule_format, OF one(1)]
  from h1 obtain tr where
    "trace (snd (start_server env_ok ?i)) = trace ?i @ tr"
    "sem_seen (snd (start_server env_ok ?i)) = sem_seen ?i @ replicate (length tr) 0"
    by blast
  with i0 t1 have a1: "sem_seen (snd (start_server env_ok ?i)) = [0, 0, 0, 0, 0, 0, 0]"
    by (simp add: numeral_eq_Suc)
  from h1 r1 have a2: "ops_sem (ctl (snd (start_server env_ok ?i))) = 1" by blast
  note h2 = ops_sem_fail_fast [of cfg_default False ?r env_ok, THEN conjunct2, THEN conjunct1,
      rule_format, OF one(2)]
  from h2 obtain tr where
    "trace (snd (request_stop_server env_ok ?r)) = trace ?r @ tr"
    "sem_seen (snd (request_stop_server env_ok ?r)) = sem_seen ?r @ replicate (length tr) 0"
    by blast
  with t2 have b1: "sem_seen (snd (request_stop_server env_ok ?r)) = sem_seen ?r @ [0, 0, 0, 0]"
    by simp
  from h2 r2 have b2: "ops_sem (ctl (snd (request_stop_server env_ok ?r))) = 1" by blast
  have z: "ops_sem (ctl (x\<lparr> ctl := (ctl x)\<lparr> ops_sem := 0 \<rparr> \<rparr>)) = 0" for x :: sys
    by simp
  from ops_sem_fail_fast [of cfg_default False "?i\<lparr> ctl := (ctl ?i)\<lparr> ops_sem := 0 \<rparr> \<rparr>" env_ok]
    z [of ?i]
  have c: "request_stop_server env_ok (?i\<lparr> ctl := (ctl ?i)\<lparr> ops_sem := 0 \<rparr> \<rparr>)
       = (Inl (Runtime_error ''CQL server is starting, try again later''),
          ?i\<lparr> ctl := (ctl ?i)\<lparr> ops_sem := 0 \<rparr> \<rparr>)"
    by blast
  from ops_sem_fail_fast [of cfg_default False "?r\<lparr> ctl := (ctl ?r)\<lparr> ops_sem := 0 \<rparr> \<rparr>" env_ok]
    z [of ?r]
  have d: "start_server env_ok (?r\<lparr> ctl := (ctl ?r)\<lparr> ops_sem := 0 \<rparr> \<rparr>)
       = (Inl (Runtime_error ''CQL server is stopping, try again later''),
          ?r\<lparr> ctl := (ctl ?r)\<lparr> ops_sem := 0 \<rparr> \<rparr>)"
    by blast
  from one body a1 a2 b1 b2 c d show ?thesis by (simp only: simp_thms)
qed

subsection \<open>The readiness bit\<close>

text \<open>
  C7, as the claim states it, fails for the stop: when the gossip update that would set
  the bit to false throws, the controller keeps the exception and goes on. With a
  running server whose bit is true and gossip down, \<open>request_stop_server\<close>
  unsubscribes, shuts down and stops the server while the bit is still true, and only
  then rethrows.
\<close>

theorem cql_ready_cleared_counterexample:
  "server (ctl (sys_running False)) = Some Cql_server
   \<and> cql_ready (wld (sys_running False)) = Some True
   \<and> fst (request_stop_server env_gossip_down (sys_running False))
       = Inl (External_error ''gossip'')
   \<and> trace (snd (request_stop_server env_gossip_down (sys_running False)))
       = trace (sys_running False) @
           [Failed (Set_cql_ready False), Done Unsubscribe, Done Shutdown, Done Server_stop]
   \<and> Done (Set_cql_ready False)
       \<notin> set (trace (snd (request_stop_server env_gossip_down (sys_running False))))
   \<and> cql_ready (wld (snd (request_stop_server env_gossip_down (sys_running False)))) = Some True"
  by (simp add: ctl_defs env_gossip_down_def Let_def)

text \<open>
  C7, amended. The readiness is the one application state \<open>RPC_READY\<close>. During a
  start, the call that sets the bit to true comes only after \<open>listen\<close> has returned
  for every configured listener, none of them having failed; the bit is set to true
  exactly when the start succeeds. During a stop of a running server, the call that
  sets the bit to false is the first thing done, before the server is unsubscribed,
  shut down and stopped. When that call goes through, the bit is false from then on;
  when it fails, the bit keeps its value, the stop goes on all the same (the server is
  unsubscribed, then shut down unless unsubscribing failed, then stopped), and the stop
  ends with the error of the call.
\<close>

theorem cql_ready_brackets_serving:
  "(\<exists>tr. trace (snd (do_start_server e s)) = trace s @ tr
       \<and> ((\<exists>ev \<in> set tr. sets_cql_ready True ev) \<longrightarrow>
            (\<forall>c \<in> set (configured_listeners e (ctl s)).
               Done (Listen c) \<in> set (events_before (sets_cql_ready True) tr))
            \<and> (\<forall>c. Failed (Listen c) \<notin> set tr))
       \<and> (Done (Set_cql_ready True) \<in> set tr \<longleftrightarrow>
            server (ctl s) = None \<and> fst (do_start_server e s) = Inr ()))
   \<and> (server (ctl s) \<noteq> None \<longrightarrow>
       (\<exists>ev rest. trace (snd (do_stop_server e s)) = trace s @ ev # rest
          \<and> (gossip_fails e False = None \<longrightarrow>
               ev = Done (Set_cql_ready False)
               \<and> cql_ready (wld (snd (do_stop_server e s))) = Some False)
          \<and> (gossip_fails e False \<noteq> None \<longrightarrow>
               ev = Failed (Set_cql_ready False)
               \<and> cql_ready (wld (snd (do_stop_server e s))) = cql_ready (wld s)
               \<and> fst (do_stop_server e s) = Inl (the (gossip_fails e False)))
          \<and> set rest \<subseteq> {Done Unsubscribe, Failed Unsubscribe, Done Shutdown, Failed Shutdown,
                          Done Server_stop, Failed Server_stop}
          \<and> (Done Server_stop \<in> set rest \<or> Failed Server_stop \<in> set rest)
          \<and> (unsubscribe_fails e = None \<longrightarrow>
               Done Unsubscribe \<in> set rest
               \<and> (Done Shutdown \<in> set rest \<or> Failed Shutdown \<in> set rest))))"
proof (intro conjI impI)
  obtain r s' where d: "do_start_server e s = (r, s')" by (cases "do_start_server e s")
  from do_start_server_ready [OF d] d
  show "\<exists>tr. trace (snd (do_start_server e s)) = trace s @ tr
       \<and> ((\<exists>ev \<in> set tr. sets_cql_ready True ev) \<longrightarrow>
            (\<forall>c \<in> set (configured_listeners e (ctl s)).
               Done (Listen c) \<in> set (events_before (sets_cql_ready True) tr))
            \<and> (\<forall>c. Failed (Listen c) \<notin> set tr))
       \<and> (Done (Set_cql_ready True) \<in> set tr \<longleftrightarrow>
            server (ctl s) = None \<and> fst (do_start_server e s) = Inr ())"
    by simp
next
  assume "server (ctl s) \<noteq> None"
  then obtain x where x: "server (ctl s) = Some x" by auto
  let ?ev = "case gossip_fails e False of None \<Rightarrow> Done (Set_cql_ready False)
                                        | Some err \<Rightarrow> Failed (Set_cql_ready False)"
  let ?rest = "(case unsubscribe_fails e of
            Some err \<Rightarrow> [Failed Unsubscribe]
          | None \<Rightarrow> [Done Unsubscribe,
                      (case shutdown_fails e of None \<Rightarrow> Done Shutdown
                                               | Some err \<Rightarrow> Failed Shutdown)])
       @ [case server_stop_fails e of None \<Rightarrow> Done Server_stop
                                    | Some err \<Rightarrow> Failed Server_stop]"
  have t: "trace (snd (do_stop_server e s)) = trace s @ ?ev # ?rest"
    by (rule do_stop_server_trace [OF x])
  have g1: "gossip_fails e False = None \<longrightarrow>
               ?ev = Done (Set_cql_ready False)
               \<and> cql_ready (wld (snd (do_stop_server e s))) = Some False"
    by (simp add: do_stop_server_world [OF x])
  have g2: "gossip_fails e False \<noteq> None \<longrightarrow>
               ?ev = Failed (Set_cql_ready False)
               \<and> cql_ready (wld (snd (do_stop_server e s))) = cql_ready (wld s)
               \<and> fst (do_stop_server e s) = Inl (the (gossip_fails e False))"
    by (auto simp: do_stop_server_world [OF x] do_stop_server_result [OF x])
  have r1: "set ?rest \<subseteq> {Done Unsubscribe, Failed Unsubscribe, Done Shutdown, Failed Shutdown,
                          Done Server_stop, Failed Server_stop}"
    by (auto split: option.splits)
  have r2: "Done Server_stop \<in> set ?rest \<or> Failed Server_stop \<in> set ?rest"
    by (auto split: option.splits)
  have r3: "unsubscribe_fails e = None \<longrightarrow>
               Done Unsubscribe \<in> set ?rest
               \<and> (Done Shutdown \<in> set ?rest \<or> Failed Shutdown \<in> set ?rest)"
    by (auto split: option.splits)
  have "trace (snd (do_stop_server e s)) = trace s @ ?ev # ?rest
          \<and> (gossip_fails e False = None \<longrightarrow>
               ?ev = Done (Set_cql_ready False)
               \<and> cql_ready (wld (snd (do_stop_server e s))) = Some False)
          \<and> (gossip_fails e False \<noteq> None \<longrightarrow>
               ?ev = Failed (Set_cql_ready False)
               \<and> cql_ready (wld (snd (do_stop_server e s))) = cql_ready (wld s)
               \<and> fst (do_stop_server e s) = Inl (the (gossip_fails e False)))
          \<and> set ?rest \<subseteq> {Done Unsubscribe, Failed Unsubscribe, Done Shutdown, Failed Shutdown,
                          Done Server_stop, Failed Server_stop}
          \<and> (Done Server_stop \<in> set ?rest \<or> Failed Server_stop \<in> set ?rest)
          \<and> (unsubscribe_fails e = None \<longrightarrow>
               Done Unsubscribe \<in> set ?rest
               \<and> (Done Shutdown \<in> set ?rest \<or> Failed Shutdown \<in> set ?rest))"
    apply (insert t g1 g2 r1 r2 r3)
    apply (intro conjI)
        apply assumption+
    done
  then show "\<exists>ev rest. trace (snd (do_stop_server e s)) = trace s @ ev # rest
          \<and> (gossip_fails e False = None \<longrightarrow>
               ev = Done (Set_cql_ready False)
               \<and> cql_ready (wld (snd (do_stop_server e s))) = Some False)
          \<and> (gossip_fails e False \<noteq> None \<longrightarrow>
               ev = Failed (Set_cql_ready False)
               \<and> cql_ready (wld (snd (do_stop_server e s))) = cql_ready (wld s)
               \<and> fst (do_stop_server e s) = Inl (the (gossip_fails e False)))
          \<and> set rest \<subseteq> {Done Unsubscribe, Failed Unsubscribe, Done Shutdown, Failed Shutdown,
                          Done Server_stop, Failed Server_stop}
          \<and> (Done Server_stop \<in> set rest \<or> Failed Server_stop \<in> set rest)
          \<and> (unsubscribe_fails e = None \<longrightarrow>
               Done Unsubscribe \<in> set rest
               \<and> (Done Shutdown \<in> set rest \<or> Failed Shutdown \<in> set rest))"
    by (rule exI [of _ ?rest, THEN exI [of _ ?ev]])
qed

text \<open>
  A start with the default ports; a stop of the server it started, with nothing
  failing; and a stop of that server with gossip down.
\<close>

theorem cql_ready_brackets_serving_witness:
  "Done (Listen \<lparr> addr = Inet_addr ''10.0.0.1'' 9042, is_shard_aware = False, cred = None \<rparr>)
     \<in> set (events_before (sets_cql_ready True)
              (trace (snd (do_start_server env_ok (sys_init cfg_default False)))))
   \<and> Done (Listen \<lparr> addr = Inet_addr ''10.0.0.1'' 19042, is_shard_aware = True, cred = None \<rparr>)
     \<in> set (events_before (sets_cql_ready True)
              (trace (snd (do_start_server env_ok (sys_init cfg_default False)))))
   \<and> Done (Set_cql_ready True)
     \<in> set (trace (snd (do_start_server env_ok (sys_init cfg_default False))))
   \<and> server (ctl (sys_running False)) \<noteq> None
   \<and> cql_ready (wld (snd (do_stop_server env_ok (sys_running False)))) = Some False
   \<and> (\<exists>rest. trace (snd (do_stop_server env_ok (sys_running False))) =
         trace (sys_running False) @ Done (Set_cql_ready False) # rest
         \<and> Done Unsubscribe \<in> set rest
         \<and> (Done Shutdown \<in> set rest \<or> Failed Shutdown \<in> set rest))
   \<and> fst (do_stop_server env_gossip_down (sys_running False)) = Inl (External_error ''gossip'')
   \<and> (\<exists>rest. trace (snd (do_stop_server env_gossip_down (sys_running False))) =
         trace (sys_running False) @ Failed (Set_cql_ready False) # rest)"
proof -
  let ?s = "sys_init cfg_default False"
  have tr: "trace (snd (do_start_server env_ok ?s)) =
    [Done Create_smp_service_group, Done (Resolve ''localhost'' (Some INET) None), Done Server_start, Done Subscribe,
     Done (Listen \<lparr> addr = Inet_addr ''10.0.0.1'' 9042, is_shard_aware = False, cred = None \<rparr>),
     Done (Listen \<lparr> addr = Inet_addr ''10.0.0.1'' 19042, is_shard_aware = True, cred = None \<rparr>),
     Done (Set_cql_ready True)]"
    by code_simp
  have t0: "trace ?s = []" by (simp add: sys_init_def)
  have cl: "configured_listeners env_ok (ctl ?s) =
    [\<lparr> addr = Inet_addr ''10.0.0.1'' 9042, is_shard_aware = False, cred = None \<rparr>,
     \<lparr> addr = Inet_addr ''10.0.0.1'' 19042, is_shard_aware = True, cred = None \<rparr>]"
    by code_simp
  have hit: "\<exists>ev \<in> set (trace (snd (do_start_server env_ok ?s))). sets_cql_ready True ev"
    unfolding tr by (simp add: sets_cql_ready_def)
  from cql_ready_brackets_serving [of env_ok ?s, THEN conjunct1] t0 hit
  have a: "\<forall>c \<in> set (configured_listeners env_ok (ctl ?s)).
             Done (Listen c) \<in> set (events_before (sets_cql_ready True)
                (trace (snd (do_start_server env_ok ?s))))"
    by auto
  have d: "Done (Set_cql_ready True) \<in> set (trace (snd (do_start_server env_ok ?s)))"
    unfolding tr by simp
  have srv: "server (ctl (sys_running False)) \<noteq> None" by code_simp
  have g: "gossip_fails env_ok False = None" "unsubscribe_fails env_ok = None"
    by (simp_all add: env_ok_def)
  from cql_ready_brackets_serving [of env_ok "sys_running False", THEN conjunct2, rule_format, OF srv] g
  have b: "cql_ready (wld (snd (do_stop_server env_ok (sys_running False)))) = Some False"
    "\<exists>rest. trace (snd (do_stop_server env_ok (sys_running False))) =
         trace (sys_running False) @ Done (Set_cql_ready False) # rest
         \<and> Done Unsubscribe \<in> set rest
         \<and> (Done Shutdown \<in> set rest \<or> Failed Shutdown \<in> set rest)"
    by auto
  have f: "gossip_fails env_gossip_down False \<noteq> None"
    "the (gossip_fails env_gossip_down False) = External_error ''gossip''"
    by (simp_all add: env_gossip_down_def)
  from cql_ready_brackets_serving [of env_gossip_down "sys_running False", THEN conjunct2,
      rule_format, OF srv] f
  have c: "fst (do_stop_server env_gossip_down (sys_running False)) = Inl (External_error ''gossip'')"
    "\<exists>rest. trace (snd (do_stop_server env_gossip_down (sys_running False))) =
         trace (sys_running False) @ Failed (Set_cql_ready False) # rest"
    by auto
  from a cl d srv b c show ?thesis by simp
qed

subsection \<open>The maintenance socket\<close>




end
